theory Spec2Isabelle
  imports Complex_Main "HOL-Library.Signed_Division"
begin

section \<open>Blackjack: a shallow embedding of \<open>blackjack.py\<close>\<close>

text \<open>
  The Python program keeps its state in mutable objects (cards, hands, players) and reads
  its decisions from the console. Here every function takes the objects it mutates and
  returns them updated; the console is the list of the lines still to be read; an
  exception is a value \<open>Inl e\<close>.
\<close>

subsection \<open>Exceptions\<close>

datatype error = IndexError | ValueError | EOFError | OverflowError | TypeError | AttributeError

subsection \<open>Console input\<close>

text \<open>
  One line read by \<open>input()\<close>. \<open>raw\<close> is the text of the line, \<open>number\<close> is what Python's
  \<open>int()\<close> makes of that text (\<open>None\<close> when \<open>int()\<close> raises \<open>ValueError\<close>). The parser of
  \<open>int()\<close> is a builtin outside the program, so its result travels with the line.
\<close>

record Line =
  raw :: string
  number :: "int option"

text \<open>
  \<open>str.upper()\<close> on a line given as the bytes of its UTF-8 text. The ASCII letters go to
  their capitals. Beyond ASCII, ten characters have an upper case made of ASCII letters:
  U+00DF gives \<open>SS\<close>, U+0131 gives \<open>I\<close>, U+017F (the long s) gives \<open>S\<close>, and the ligatures
  U+FB00 to U+FB06 give \<open>FF\<close>, \<open>FI\<close>, \<open>FL\<close>, \<open>FFI\<close>, \<open>FFL\<close>, \<open>ST\<close> and \<open>ST\<close>. Every other
  character beyond ASCII is copied: its upper case stays beyond ASCII, and the program
  only compares the result with ASCII letters.
\<close>

definition upper_char :: "char \<Rightarrow> char" where
  "upper_char c =
     (case map_of (zip ''abcdefghijklmnopqrstuvwxyz'' ''ABCDEFGHIJKLMNOPQRSTUVWXYZ'') c of
        None \<Rightarrow> c
      | Some u \<Rightarrow> u)"

definition upper_beyond_ascii :: "(string \<times> string) list" where
  "upper_beyond_ascii =
     [([CHR 0xC3, CHR 0x9F], ''SS''), ([CHR 0xC4, CHR 0xB1], ''I''), ([CHR 0xC5, CHR 0xBF], ''S''),
      ([CHR 0xEF, CHR 0xAC, CHR 0x80], ''FF''), ([CHR 0xEF, CHR 0xAC, CHR 0x81], ''FI''),
      ([CHR 0xEF, CHR 0xAC, CHR 0x82], ''FL''), ([CHR 0xEF, CHR 0xAC, CHR 0x83], ''FFI''),
      ([CHR 0xEF, CHR 0xAC, CHR 0x84], ''FFL''), ([CHR 0xEF, CHR 0xAC, CHR 0x85], ''ST''),
      ([CHR 0xEF, CHR 0xAC, CHR 0x86], ''ST'')]"

fun upper :: "string \<Rightarrow> string" where
  "upper [] = []"
| "upper [a] = [upper_char a]"
| "upper (a # b # cs) =
     (case map_of upper_beyond_ascii [a, b] of
        Some u \<Rightarrow> u @ upper cs
      | None \<Rightarrow>
          (case cs of
             [] \<Rightarrow> upper_char a # upper (b # cs)
           | c # ds \<Rightarrow>
               (case map_of upper_beyond_ascii [a, b, c] of
                  Some u \<Rightarrow> u @ upper ds
                | None \<Rightarrow> upper_char a # upper (b # cs))))"

text \<open>\<open>s.startswith(p)\<close>\<close>

definition startswith :: "string \<Rightarrow> string \<Rightarrow> bool" where
  "startswith s p = (take (length p) s = p)"

subsection \<open>Cards and the deck\<close>

definition LIMIT :: int where
  "LIMIT = 21"

record Card =
  name :: string
  points :: int

text \<open>The four suit signs, as the UTF-8 bytes of U+2660, U+2665, U+2666 and U+2663.\<close>

definition SUITS :: "string list" where
  "SUITS = [[CHR 0xE2, CHR 0x99, CHR 0xA0], [CHR 0xE2, CHR 0x99, CHR 0xA5],
            [CHR 0xE2, CHR 0x99, CHR 0xA6], [CHR 0xE2, CHR 0x99, CHR 0xA3]]"

text \<open>The dictionary \<open>RANKS_POINTS\<close>, in its insertion order.\<close>

definition RANKS_POINTS :: "(string \<times> int) list" where
  "RANKS_POINTS = [(''A'', 11), (''2'', 2), (''3'', 3), (''4'', 4), (''5'', 5), (''6'', 6),
     (''7'', 7), (''8'', 8), (''9'', 9), (''10'', 10), (''J'', 10), (''Q'', 10), (''K'', 10)]"

text \<open>
  \<open>Deck.__init__\<close> before the shuffle: the 52 cards, suit by suit. \<open>shuffle\<close> is random, so
  a deck in play is any list of cards; \<open>deck_card\<close> says that a card is one of the 52 as
  they are created.
\<close>

definition unshuffled_deck :: "Card list" where
  "unshuffled_deck =
     concat (map (\<lambda>suit. map (\<lambda>(rank, pts). \<lparr>name = rank @ suit, points = pts\<rparr>) RANKS_POINTS)
                 SUITS)"

definition deck_card :: "Card \<Rightarrow> bool" where
  "deck_card c = (c \<in> set unshuffled_deck)"

text \<open>\<open>Deck.deal\<close>: \<open>self.pop()\<close> takes the last card, and raises on an empty deck.\<close>

definition deal :: "Card list \<Rightarrow> error + (Card \<times> Card list)" where
  "deal deck = (if deck = [] then Inl IndexError else Inr (last deck, butlast deck))"

subsection \<open>Hands\<close>

text \<open>\<open>Hand\<close> is a list of cards with two more attributes.\<close>

record Hand =
  cards :: "Card list"
  hand_value :: int
  blackjack :: bool

definition new_hand :: Hand where
  "new_hand = \<lparr>cards = [], hand_value = 0, blackjack = False\<rparr>"

text \<open>
  \<open>Hand.add_card\<close>. The card object is changed before it is counted, so the card stored in
  the hand is the changed one. The returned value is \<open>hand_value\<close> of the result.
\<close>

definition add_card :: "Hand \<Rightarrow> Card \<Rightarrow> Hand" where
  "add_card h c =
     (let c' = (if startswith (name c) ''A'' \<and> hand_value h > 10
                then c\<lparr>points := 1\<rparr> else c)
      in h\<lparr>cards := cards h @ [c'], hand_value := hand_value h + points c'\<rparr>)"

definition check_blackjack :: "Hand \<Rightarrow> Hand" where
  "check_blackjack h = h\<lparr>blackjack := (length (cards h) = 2 \<and> hand_value h = LIMIT)\<rparr>"

text \<open>
  The \<open>for card in self\<close> loop of \<open>Hand.reset_ace_value\<close>, with the running value: it visits
  every card and has no exit of its own.
\<close>

fun demote_aces :: "Card list \<Rightarrow> int \<Rightarrow> Card list \<times> int" where
  "demote_aces [] v = ([], v)"
| "demote_aces (c # rest) v =
     (if startswith (name c) ''A'' \<and> points c = 11
      then (let (rest', v') = demote_aces rest (v - 10) in (c\<lparr>points := 1\<rparr> # rest', v'))
      else (let (rest', v') = demote_aces rest v in (c # rest', v')))"

definition reset_ace_value :: "Hand \<Rightarrow> Hand" where
  "reset_ace_value h =
     (if hand_value h > LIMIT
      then (let (cs, v) = demote_aces (cards h) (hand_value h)
            in h\<lparr>cards := cs, hand_value := v\<rparr>)
      else h)"

definition draw_card :: "Hand \<Rightarrow> Card list \<Rightarrow> error + (Hand \<times> Card list)" where
  "draw_card h deck =
     (case deal deck of
        Inl e \<Rightarrow> Inl e
      | Inr (new_card, deck') \<Rightarrow> Inr (reset_ace_value (add_card h new_card), deck'))"

subsection \<open>Players and the dealer\<close>

text \<open>
  A player as \<open>Player.__init__\<close> and \<open>reset_for_new_round\<close> make it. \<open>second_hand\<close> and
  \<open>second_wager\<close> are \<open>None\<close> until a split.
\<close>

record Player =
  player_name :: string
  money :: int
  cashout :: bool
  hand :: Hand
  wager :: int
  stand :: bool
  second_hand :: "Hand option"
  second_wager :: "int option"

definition new_player :: "string \<Rightarrow> Player" where
  "new_player n = \<lparr>player_name = n, money = 1000, cashout = False, hand = new_hand, wager = 0,
     stand = False, second_hand = None, second_wager = None\<rparr>"

text \<open>The dealer's only attribute besides its name is its hand.\<close>

record Dealer =
  dealer_hand :: Hand

definition reset_for_new_round :: "Player list \<Rightarrow> Dealer \<Rightarrow> Player list \<times> Dealer" where
  "reset_for_new_round players dealer =
     (map (\<lambda>player. player\<lparr>hand := new_hand, wager := 0, stand := False,
                            second_hand := None, second_wager := None\<rparr>) players,
      dealer\<lparr>dealer_hand := new_hand\<rparr>)"

text \<open>The truth value of \<open>player.second_hand\<close>: \<open>None\<close> and the empty list are false.\<close>

definition truthy :: "Hand option \<Rightarrow> bool" where
  "truthy h = (case h of None \<Rightarrow> False | Some h2 \<Rightarrow> cards h2 \<noteq> [])"

subsection \<open>Wagers\<close>

definition validate_wager :: "int \<Rightarrow> int \<Rightarrow> bool" where
  "validate_wager w maximum = (if w > maximum then False else True)"

text \<open>
  \<open>Player.make_bet\<close>: the \<open>while True\<close> loop reads one line per turn; \<open>input()\<close> at the end of
  the input raises \<open>EOFError\<close>, \<open>int()\<close> of a line that is no number raises \<open>ValueError\<close>.
\<close>

fun make_bet :: "Player \<Rightarrow> Line list \<Rightarrow> error + (Player \<times> Line list)" where
  "make_bet p [] = Inl EOFError"
| "make_bet p (l # ins) =
     (case number l of
        None \<Rightarrow> Inl ValueError
      | Some w \<Rightarrow>
          if \<not> validate_wager w (money p) then make_bet p ins
          else Inr (p\<lparr>wager := w, money := money p - w\<rparr>, ins))"

text \<open>
  \<open>double_down(player, hand, deck, wager)\<close>. \<open>hand\<close> is one of the player's two hands; the
  function changes it in place, so the model returns it and the caller stores it back
  where it came from. The third component of the result is the returned wager.
\<close>

fun double_down ::
  "Player \<Rightarrow> Hand \<Rightarrow> Card list \<Rightarrow> int \<Rightarrow> Line list
     \<Rightarrow> error + (Player \<times> Hand \<times> Card list \<times> int \<times> Line list)" where
  "double_down p h deck w [] = Inl EOFError"
| "double_down p h deck w (l # ins) =
     (let max_wager = min w (money p) in
      case number l of
        None \<Rightarrow> Inl ValueError
      | Some additional_wager \<Rightarrow>
          if \<not> validate_wager additional_wager max_wager then double_down p h deck w ins
          else (case draw_card h deck of
                  Inl e \<Rightarrow> Inl e
                | Inr (h', deck') \<Rightarrow>
                    Inr (p\<lparr>money := money p - additional_wager, stand := True\<rparr>, h', deck',
                         w + additional_wager, ins)))"

subsection \<open>Splitting\<close>

text \<open>\<open>Player.split_hand\<close>; \<open>self.hand.pop()\<close> raises on an empty hand.\<close>

definition split_hand :: "Player \<Rightarrow> Card list \<Rightarrow> error + (Player \<times> Card list)" where
  "split_hand p deck =
     (if cards (hand p) = [] then Inl IndexError
      else
        let split_card = last (cards (hand p));
            h1 = (hand p)\<lparr>cards := butlast (cards (hand p)),
                          hand_value := hand_value (hand p) - points split_card\<rparr>;
            split_card' = (if startswith (name split_card) ''A''
                           then split_card\<lparr>points := 11\<rparr> else split_card);
            h2 = add_card new_hand split_card'
        in case deal deck of
             Inl e \<Rightarrow> Inl e
           | Inr (c1, deck1) \<Rightarrow>
               (case deal deck1 of
                  Inl e \<Rightarrow> Inl e
                | Inr (c2, deck2) \<Rightarrow>
                    Inr (p\<lparr>hand := add_card h1 c1, second_hand := Some (add_card h2 c2),
                           second_wager := Some (wager p), money := money p - wager p\<rparr>,
                         deck2)))"

text \<open>
  The condition under which \<open>play_game\<close> offers the split:
  \<open>len(player.hand) == 2 and player.hand[0].name[0] == player.hand[1].name[0] and
  player.second_hand == None and player.money >= player.wager\<close>.
  \<open>name[0]\<close> raises on an empty name. (A character here is a byte; the names of the 52 cards
  start with an ASCII character.)
\<close>

definition split_offered :: "Player \<Rightarrow> error + bool" where
  "split_offered p =
     (if length (cards (hand p)) = 2
      then (case (name (cards (hand p) ! 0), name (cards (hand p) ! 1)) of
              (a # _, b # _) \<Rightarrow> Inr (a = b \<and> second_hand p = None \<and> money p \<ge> wager p)
            | _ \<Rightarrow> Inl IndexError)
      else Inr False)"

text \<open>
  \<open>player.hand[0].name.startswith("A") and player.second_hand[0].name.startswith("A")\<close>,
  the test made right after a split.
\<close>

definition split_of_aces :: "Player \<Rightarrow> error + bool" where
  "split_of_aces p =
     (case cards (hand p) of
        [] \<Rightarrow> Inl IndexError
      | c # _ \<Rightarrow>
          if startswith (name c) ''A''
          then (case second_hand p of
                  None \<Rightarrow> Inl TypeError
                | Some h2 \<Rightarrow>
                    (case cards h2 of
                       [] \<Rightarrow> Inl IndexError
                     | c2 # _ \<Rightarrow> Inr (startswith (name c2) ''A'')))
          else Inr False)"

subsection \<open>The players' turns\<close>

text \<open>
  The loop \<open>while player.hand.value < LIMIT\<close> of \<open>play_game\<close>. Each turn tests the split
  condition, reads one line and acts on it. After a split that is not of aces the choice
  is still \<open>P\<close>, which none of the tests for \<open>H\<close>, \<open>S\<close> and \<open>D\<close> matches, so the loop goes on
  to its next turn; a line that is no valid choice does the same. A \<open>break\<close> returns.
\<close>

fun first_hand_loop ::
  "Player \<Rightarrow> Card list \<Rightarrow> Line list \<Rightarrow> error + (Player \<times> Card list \<times> Line list)" where
  "first_hand_loop p deck ins =
     (if hand_value (hand p) < LIMIT then
        (case split_offered p of
           Inl e \<Rightarrow> Inl e
         | Inr offered \<Rightarrow>
             (case ins of
                [] \<Rightarrow> Inl EOFError
              | l # ins' \<Rightarrow>
                  if offered \<and> upper (raw l) = ''P'' then
                    (case split_hand p deck of
                       Inl e \<Rightarrow> Inl e
                     | Inr (p1, deck1) \<Rightarrow>
                         (case split_of_aces p1 of
                            Inl e \<Rightarrow> Inl e
                          | Inr aces \<Rightarrow>
                              if aces then Inr (p1\<lparr>stand := True\<rparr>, deck1, ins')
                              else first_hand_loop p1 deck1 ins'))
                  else if upper (raw l) = ''H'' then
                    (case draw_card (hand p) deck of
                       Inl e \<Rightarrow> Inl e
                     | Inr (h, deck1) \<Rightarrow> first_hand_loop (p\<lparr>hand := h\<rparr>) deck1 ins')
                  else if upper (raw l) = ''S'' then Inr (p\<lparr>stand := True\<rparr>, deck, ins')
                  else if upper (raw l) = ''D'' then
                    (case double_down p (hand p) deck (wager p) ins' of
                       Inl e \<Rightarrow> Inl e
                     | Inr (p1, h, deck1, w, ins1) \<Rightarrow>
                         Inr (p1\<lparr>hand := h, wager := w\<rparr>, deck1, ins1))
                  else first_hand_loop p deck ins'))
      else Inr (p, deck, ins))"

declare first_hand_loop.simps [simp del]

text \<open>
  The loop \<open>while player.second_hand.value < LIMIT\<close>. It runs only where \<open>second_hand\<close> is
  a hand; on \<open>None\<close> the attribute access would raise.
\<close>

fun second_hand_loop ::
  "Player \<Rightarrow> Card list \<Rightarrow> Line list \<Rightarrow> error + (Player \<times> Card list \<times> Line list)" where
  "second_hand_loop p deck ins =
     (case second_hand p of
        None \<Rightarrow> Inl AttributeError
      | Some h2 \<Rightarrow>
          if hand_value h2 < LIMIT then
            (case ins of
               [] \<Rightarrow> Inl EOFError
             | l # ins' \<Rightarrow>
                 if upper (raw l) = ''H'' then
                   (case draw_card h2 deck of
                      Inl e \<Rightarrow> Inl e
                    | Inr (h, deck1) \<Rightarrow> second_hand_loop (p\<lparr>second_hand := Some h\<rparr>) deck1 ins')
                 else if upper (raw l) = ''S'' then Inr (p\<lparr>stand := True\<rparr>, deck, ins')
                 else if upper (raw l) = ''D'' then
                   (case second_wager p of
                      None \<Rightarrow> Inl TypeError
                    | Some w2 \<Rightarrow>
                        (case double_down p h2 deck w2 ins' of
                           Inl e \<Rightarrow> Inl e
                         | Inr (p1, h, deck1, w, ins1) \<Rightarrow>
                             Inr (p1\<lparr>second_hand := Some h, second_wager := Some w\<rparr>,
                                  deck1, ins1)))
                 else second_hand_loop p deck ins')
          else Inr (p, deck, ins))"

declare second_hand_loop.simps [simp del]

text \<open>The two tests after the first loop: 21 stands, a bust does not.\<close>

definition after_first_hand :: "Player \<Rightarrow> Player" where
  "after_first_hand p =
     (let p1 = (if hand_value (hand p) = LIMIT then p\<lparr>stand := True\<rparr> else p)
      in if hand_value (hand p1) > LIMIT then p1\<lparr>stand := False\<rparr> else p1)"

text \<open>
  The two tests after the second loop. On a bust the source writes
  \<open>if not player.stand == True: player.stand = False\<close>.
\<close>

definition after_second_hand :: "Player \<Rightarrow> error + Player" where
  "after_second_hand p =
     (case second_hand p of
        None \<Rightarrow> Inl AttributeError
      | Some h2 \<Rightarrow>
          let p1 = (if hand_value h2 = LIMIT then p\<lparr>stand := True\<rparr> else p)
          in Inr (if hand_value h2 > LIMIT
                  then (if \<not> (stand p1 = True) then p1\<lparr>stand := False\<rparr> else p1)
                  else p1))"

text \<open>The body of \<open>for player in players\<close> around the two loops.\<close>

definition player_turn ::
  "Player \<Rightarrow> Card list \<Rightarrow> Line list \<Rightarrow> error + (Player \<times> Card list \<times> Line list)" where
  "player_turn p deck ins =
     (if blackjack (hand p) = False \<and> stand p = False then
        (case first_hand_loop p deck ins of
           Inl e \<Rightarrow> Inl e
         | Inr (p1, deck1, ins1) \<Rightarrow>
             let p2 = after_first_hand p1 in
             if truthy (second_hand p2) then
               (case second_hand p2 of
                  None \<Rightarrow> Inl TypeError
                | Some h2 \<Rightarrow>
                    (case cards h2 of
                       [] \<Rightarrow> Inl IndexError
                     | c # _ \<Rightarrow>
                         if \<not> startswith (name c) ''A'' then
                           (case second_hand_loop p2 deck1 ins1 of
                              Inl e \<Rightarrow> Inl e
                            | Inr (p3, deck2, ins2) \<Rightarrow>
                                (case after_second_hand p3 of
                                   Inl e \<Rightarrow> Inl e
                                 | Inr p4 \<Rightarrow> Inr (p4, deck2, ins2)))
                         else Inr (p2, deck1, ins1)))
             else Inr (p2, deck1, ins1))
      else Inr (p, deck, ins))"

fun player_turns ::
  "Player list \<Rightarrow> Card list \<Rightarrow> Line list \<Rightarrow> error + (Player list \<times> Card list \<times> Line list)" where
  "player_turns [] deck ins = Inr ([], deck, ins)"
| "player_turns (p # ps) deck ins =
     (case player_turn p deck ins of
        Inl e \<Rightarrow> Inl e
      | Inr (p', deck1, ins1) \<Rightarrow>
          (case player_turns ps deck1 ins1 of
             Inl e \<Rightarrow> Inl e
           | Inr (ps', deck2, ins2) \<Rightarrow> Inr (p' # ps', deck2, ins2)))"

subsection \<open>The arithmetic of \<open>int(1.5 * wager)\<close>\<close>

text \<open>
  \<open>1.5 * wager\<close> converts the integer to a double, multiplies two doubles and \<open>int()\<close>
  truncates the product towards zero. A double has a significand of 53 bits; conversion
  and product round to the nearest double, a tie to the even significand. All the values
  met here are integers or halves of integers, so they are computed in integers.

  \<open>sig_shift n\<close> is the number of low bits that \<open>n\<close> has beyond 53.
\<close>

function sig_shift :: "int \<Rightarrow> nat" where
  "sig_shift n = (if n < 2 ^ 53 then 0 else Suc (sig_shift (n div 2)))"
  by pat_completeness auto
termination
  by (relation "measure nat") auto

declare sig_shift.simps [simp del]

text \<open>Rounding an integer to 53 significant bits, to nearest, ties to even.\<close>

definition round53 :: "int \<Rightarrow> int" where
  "round53 n =
     (let a = \<bar>n\<bar>;
          s = sig_shift a;
          q = a div 2 ^ s;
          r = a mod 2 ^ s;
          q' = (if 2 * r > 2 ^ s \<or> (2 * r = 2 ^ s \<and> odd q) then q + 1 else q)
      in sgn n * (q' * 2 ^ s))"

text \<open>
  The conversion of an integer to a double raises \<open>OverflowError\<close> when the rounded value
  does not fit (it would be \<open>2 ^ 1024\<close> or more).
\<close>

definition float_of_int :: "int \<Rightarrow> error + int" where
  "float_of_int n = (let x = round53 n in if \<bar>x\<bar> \<ge> 2 ^ 1024 then Inl OverflowError else Inr x)"

text \<open>
  \<open>int(1.5 * w)\<close>. The exact product of 1.5 and the double \<open>x\<close> is \<open>3 * x / 2\<close>, which has the
  significand of \<open>3 * x\<close>, so the rounded product is \<open>round53 (3 * x) / 2\<close>. A product of
  \<open>2 ^ 1024\<close> or more is the infinity, and \<open>int()\<close> of the infinity raises \<open>OverflowError\<close>.
  \<open>sdiv\<close> is the division that truncates towards zero.
\<close>

definition int_of_1_5_times :: "int \<Rightarrow> error + int" where
  "int_of_1_5_times w =
     (case float_of_int w of
        Inl e \<Rightarrow> Inl e
      | Inr x \<Rightarrow>
          let y = round53 (3 * x)
          in if \<bar>y\<bar> \<ge> 2 ^ 1025 then Inl OverflowError else Inr (y sdiv 2))"

subsection \<open>Dealing and the natural blackjacks\<close>

text \<open>The inner loop of \<open>deal_hands\<close>: one card to each player in turn.\<close>

fun deal_to_players :: "Player list \<Rightarrow> Card list \<Rightarrow> error + (Player list \<times> Card list)" where
  "deal_to_players [] deck = Inr ([], deck)"
| "deal_to_players (p # ps) deck =
     (case deal deck of
        Inl e \<Rightarrow> Inl e
      | Inr (c, deck1) \<Rightarrow>
          (case deal_to_players ps deck1 of
             Inl e \<Rightarrow> Inl e
           | Inr (ps', deck2) \<Rightarrow> Inr (p\<lparr>hand := add_card (hand p) c\<rparr> # ps', deck2)))"

text \<open>One pass of the outer loop: the players, then the dealer.\<close>

definition deal_pass ::
  "Card list \<Rightarrow> Player list \<Rightarrow> Dealer \<Rightarrow> error + (Card list \<times> Player list \<times> Dealer)" where
  "deal_pass deck players dealer =
     (case deal_to_players players deck of
        Inl e \<Rightarrow> Inl e
      | Inr (players', deck1) \<Rightarrow>
          (case deal deck1 of
             Inl e \<Rightarrow> Inl e
           | Inr (c, deck2) \<Rightarrow>
               Inr (deck2, players', dealer\<lparr>dealer_hand := add_card (dealer_hand dealer) c\<rparr>)))"

definition deal_hands ::
  "Card list \<Rightarrow> Player list \<Rightarrow> Dealer \<Rightarrow> error + (Card list \<times> Player list \<times> Dealer)" where
  "deal_hands deck players dealer =
     (case deal_pass deck players dealer of
        Inl e \<Rightarrow> Inl e
      | Inr (deck1, players1, dealer1) \<Rightarrow> deal_pass deck1 players1 dealer1)"

definition reveal_initial_hand :: "Player \<Rightarrow> Player" where
  "reveal_initial_hand p = p\<lparr>hand := check_blackjack (hand p)\<rparr>"

text \<open>\<open>Dealer.reveal_faceup\<close>: \<open>self.hand[-1]\<close>, the card dealt last.\<close>

definition reveal_faceup :: "Dealer \<Rightarrow> error + Card" where
  "reveal_faceup dealer =
     (if cards (dealer_hand dealer) = [] then Inl IndexError
      else Inr (last (cards (dealer_hand dealer))))"

text \<open>The test \<open>faceup.points == 10 or faceup.name.startswith("A")\<close> of \<open>play_game\<close>.\<close>

definition must_check :: "Card \<Rightarrow> bool" where
  "must_check faceup = (points faceup = 10 \<or> startswith (name faceup) ''A'')"

fun payout_natural_blackjacks :: "Player list \<Rightarrow> error + Player list" where
  "payout_natural_blackjacks [] = Inr []"
| "payout_natural_blackjacks (p # ps) =
     (if blackjack (hand p) then
        (case int_of_1_5_times (wager p) of
           Inl e \<Rightarrow> Inl e
         | Inr bonus \<Rightarrow>
             (case payout_natural_blackjacks ps of
                Inl e \<Rightarrow> Inl e
              | Inr ps' \<Rightarrow> Inr (p\<lparr>money := money p + (wager p + bonus)\<rparr> # ps')))
      else
        (case payout_natural_blackjacks ps of
           Inl e \<Rightarrow> Inl e
         | Inr ps' \<Rightarrow> Inr (p # ps')))"

definition handle_dealer_blackjack :: "Dealer \<Rightarrow> Player list \<Rightarrow> Player list" where
  "handle_dealer_blackjack dealer players =
     map (\<lambda>p. if blackjack (hand p) then p\<lparr>money := money p + wager p\<rparr>
               else p\<lparr>stand := True\<rparr>) players"

text \<open>
  The dealer's check in \<open>play_game\<close>, from \<open>reveal_faceup\<close> to the pay-out of the natural
  blackjacks.
\<close>

definition dealer_check :: "Dealer \<Rightarrow> Player list \<Rightarrow> error + (Dealer \<times> Player list)" where
  "dealer_check dealer players =
     (case reveal_faceup dealer of
        Inl e \<Rightarrow> Inl e
      | Inr faceup \<Rightarrow>
          if must_check faceup then
            (let dealer1 = dealer\<lparr>dealer_hand := check_blackjack (dealer_hand dealer)\<rparr>
             in if blackjack (dealer_hand dealer1) = True
                then Inr (dealer1, handle_dealer_blackjack dealer1 players)
                else (case payout_natural_blackjacks players of
                        Inl e \<Rightarrow> Inl e
                      | Inr players' \<Rightarrow> Inr (dealer1, players')))
          else (case payout_natural_blackjacks players of
                  Inl e \<Rightarrow> Inl e
                | Inr players' \<Rightarrow> Inr (dealer, players')))"

subsection \<open>Settlement\<close>

text \<open>
  \<open>payout_hand\<close> and \<open>compare_hand\<close> receive the wager of the hand they settle, which for the
  second hand is \<open>player.second_wager\<close> and may be \<open>None\<close>; arithmetic on \<open>None\<close> raises
  \<open>TypeError\<close>.
\<close>

definition payout_hand :: "Player \<Rightarrow> Hand \<Rightarrow> int option \<Rightarrow> error + Player" where
  "payout_hand p player_hand player_wager =
     (case player_wager of
        None \<Rightarrow> Inl TypeError
      | Some w \<Rightarrow> (let winnings = 2 * w in Inr (p\<lparr>money := money p + winnings\<rparr>)))"

definition compare_hand :: "Player \<Rightarrow> Hand \<Rightarrow> Hand \<Rightarrow> int option \<Rightarrow> error + Player" where
  "compare_hand p player_hand dealer_hand' player_wager =
     (if hand_value dealer_hand' > hand_value player_hand then Inr p
      else if hand_value dealer_hand' = hand_value player_hand then
        (case player_wager of
           None \<Rightarrow> Inl TypeError
         | Some w \<Rightarrow> Inr (p\<lparr>money := money p + w\<rparr>))
      else payout_hand p player_hand player_wager)"

text \<open>The body of the loop of \<open>payout_after_dealer_bust\<close>, for one player.\<close>

definition payout_player_after_dealer_bust :: "Player \<Rightarrow> error + Player" where
  "payout_player_after_dealer_bust p =
     (if stand p then
        (case (if hand_value (hand p) \<le> LIMIT then payout_hand p (hand p) (Some (wager p))
               else Inr p) of
           Inl e \<Rightarrow> Inl e
         | Inr p1 \<Rightarrow>
             (case second_hand p1 of
                None \<Rightarrow> Inr p1
              | Some h2 \<Rightarrow>
                  if cards h2 \<noteq> [] then
                    (if hand_value h2 \<le> LIMIT then payout_hand p1 h2 (second_wager p1)
                     else Inr p1)
                  else Inr p1))
      else Inr p)"

fun payout_after_dealer_bust :: "Player list \<Rightarrow> error + Player list" where
  "payout_after_dealer_bust [] = Inr []"
| "payout_after_dealer_bust (p # ps) =
     (case payout_player_after_dealer_bust p of
        Inl e \<Rightarrow> Inl e
      | Inr p' \<Rightarrow>
          (case payout_after_dealer_bust ps of
             Inl e \<Rightarrow> Inl e
           | Inr ps' \<Rightarrow> Inr (p' # ps')))"

text \<open>The body of the loop of \<open>compare_multiple_hands\<close>, for one player.\<close>

definition compare_player_hands :: "Player \<Rightarrow> Dealer \<Rightarrow> error + Player" where
  "compare_player_hands p dealer =
     (if stand p then
        (case (if hand_value (hand p) \<le> LIMIT
               then compare_hand p (hand p) (dealer_hand dealer) (Some (wager p))
               else Inr p) of
           Inl e \<Rightarrow> Inl e
         | Inr p1 \<Rightarrow>
             (case second_hand p1 of
                None \<Rightarrow> Inr p1
              | Some h2 \<Rightarrow>
                  if cards h2 \<noteq> [] then
                    (if hand_value h2 \<le> LIMIT
                     then compare_hand p1 h2 (dealer_hand dealer) (second_wager p1)
                     else Inr p1)
                  else Inr p1))
      else Inr p)"

fun compare_multiple_hands :: "Player list \<Rightarrow> Dealer \<Rightarrow> error + Player list" where
  "compare_multiple_hands [] dealer = Inr []"
| "compare_multiple_hands (p # ps) dealer =
     (case compare_player_hands p dealer of
        Inl e \<Rightarrow> Inl e
      | Inr p' \<Rightarrow>
          (case compare_multiple_hands ps dealer of
             Inl e \<Rightarrow> Inl e
           | Inr ps' \<Rightarrow> Inr (p' # ps')))"

subsection \<open>The dealer's turn\<close>

text \<open>
  The loop \<open>while dealer.hand.value < 17: dealer.hand.draw_card(deck)\<close>. Every turn takes a
  card from the deck, so the loop ends, with the hand or with the \<open>IndexError\<close> of the
  empty deck.
\<close>

function dealer_draws :: "Hand \<Rightarrow> Card list \<Rightarrow> error + (Hand \<times> Card list)" where
  "dealer_draws h deck =
     (if hand_value h < 17 then
        (case draw_card h deck of
           Inl e \<Rightarrow> Inl e
         | Inr (h', deck') \<Rightarrow> dealer_draws h' deck')
      else Inr (h, deck))"
  by pat_completeness auto
termination
  by (relation "measure (\<lambda>(h, deck). length deck)")
     (auto simp: draw_card_def deal_def split: if_splits)

declare dealer_draws.simps [simp del]

definition resolve_dealer_hand ::
  "Card list \<Rightarrow> Dealer \<Rightarrow> Player list \<Rightarrow> error + (Card list \<times> Dealer \<times> Player list)" where
  "resolve_dealer_hand deck dealer players =
     (case dealer_draws (dealer_hand dealer) deck of
        Inl e \<Rightarrow> Inl e
      | Inr (h, deck') \<Rightarrow>
          let dealer' = dealer\<lparr>dealer_hand := h\<rparr> in
          if hand_value h > LIMIT then
            (case payout_after_dealer_bust players of
               Inl e \<Rightarrow> Inl e
             | Inr players' \<Rightarrow> Inr (deck', dealer', players'))
          else
            (case compare_multiple_hands players dealer' of
               Inl e \<Rightarrow> Inl e
             | Inr players' \<Rightarrow> Inr (deck', dealer', players')))"

text \<open>
  The last loop of the round: the dealer plays once, as soon as one player stands, unless
  the dealer holds a natural blackjack.
\<close>

definition dealer_turn ::
  "Card list \<Rightarrow> Dealer \<Rightarrow> Player list \<Rightarrow> error + (Card list \<times> Dealer \<times> Player list)" where
  "dealer_turn deck dealer players =
     (if list_ex (\<lambda>p. stand p \<and> \<not> blackjack (dealer_hand dealer)) players
      then resolve_dealer_hand deck dealer players
      else Inr (deck, dealer, players))"

subsection \<open>One round\<close>

text \<open>The loop \<open>for player in players: player.make_bet()\<close>.\<close>

fun make_bets :: "Player list \<Rightarrow> Line list \<Rightarrow> error + (Player list \<times> Line list)" where
  "make_bets [] ins = Inr ([], ins)"
| "make_bets (p # ps) ins =
     (case make_bet p ins of
        Inl e \<Rightarrow> Inl e
      | Inr (p', ins1) \<Rightarrow>
          (case make_bets ps ins1 of
             Inl e \<Rightarrow> Inl e
           | Inr (ps', ins2) \<Rightarrow> Inr (p' # ps', ins2)))"

text \<open>
  The round from the revealing of the hands, once the cards are dealt, to the settlement:
  the natural blackjacks, the players' turns and the dealer's turn.
\<close>

definition play_dealt_round ::
  "Player list \<Rightarrow> Dealer \<Rightarrow> Card list \<Rightarrow> Line list
     \<Rightarrow> error + (Player list \<times> Dealer \<times> Card list \<times> Line list)" where
  "play_dealt_round players dealer deck ins =
     (case dealer_check dealer (map reveal_initial_hand players) of
        Inl e \<Rightarrow> Inl e
      | Inr (dealer1, players1) \<Rightarrow>
          (case player_turns players1 deck ins of
             Inl e \<Rightarrow> Inl e
           | Inr (players2, deck1, ins1) \<Rightarrow>
               (case dealer_turn deck1 dealer1 players2 of
                  Inl e \<Rightarrow> Inl e
                | Inr (deck2, dealer2, players3) \<Rightarrow> Inr (players3, dealer2, deck2, ins1))))"

text \<open>
  The body of \<open>while players\<close> up to the settlement, on the shuffled deck of the round.
\<close>

definition play_round ::
  "Player list \<Rightarrow> Dealer \<Rightarrow> Card list \<Rightarrow> Line list
     \<Rightarrow> error + (Player list \<times> Dealer \<times> Card list \<times> Line list)" where
  "play_round players dealer game_deck ins =
     (let (players0, dealer0) = reset_for_new_round players dealer in
      case make_bets players0 ins of
        Inl e \<Rightarrow> Inl e
      | Inr (players1, ins1) \<Rightarrow>
          (case deal_hands game_deck players1 dealer0 of
             Inl e \<Rightarrow> Inl e
           | Inr (deck1, players2, dealer1) \<Rightarrow> play_dealt_round players2 dealer1 deck1 ins1))"

section \<open>What the specification says\<close>

text \<open>
  These definitions follow the words of the specification, not the code; the theorems
  below compare them with the code.
\<close>

text \<open>
  The settlement function of the specification: a natural blackjack pays
  \<open>wager + floor(1.5 * wager)\<close>, a win \<open>2 * wager\<close>, a push \<open>wager\<close>, a loss nothing.
\<close>

datatype outcome = NaturalWin | Win | Push | Loss

fun settle :: "outcome \<Rightarrow> int \<Rightarrow> int" where
  "settle NaturalWin w = w + \<lfloor>1.5 * real_of_int w\<rfloor>"
| "settle Win w = 2 * w"
| "settle Push w = w"
| "settle Loss w = 0"

text \<open>
  The outcome of a hand that is not bust against the dealer's final value: a win when the
  dealer is bust or the player's value is strictly higher, a push when the values are
  equal, a loss otherwise.
\<close>

definition outcome_against :: "int \<Rightarrow> int \<Rightarrow> outcome" where
  "outcome_against dealer_value player_value =
     (if dealer_value > LIMIT \<or> player_value > dealer_value then Win
      else if player_value = dealer_value then Push
      else Loss)"

text \<open>
  What the settlement credits for one hand with its wager, against the dealer's final
  hand; a bust hand has lost its wager. And what it credits to a player: a player who
  stands is paid for each hand, any other player for none.
\<close>

definition hand_credit :: "Hand \<Rightarrow> Hand \<Rightarrow> int \<Rightarrow> int" where
  "hand_credit dealer_final h w =
     (if hand_value h \<le> LIMIT
      then settle (outcome_against (hand_value dealer_final) (hand_value h)) w
      else 0)"

definition round_credit :: "Hand \<Rightarrow> Player \<Rightarrow> int" where
  "round_credit dealer_final p =
     (if stand p
      then hand_credit dealer_final (hand p) (wager p)
           + (case (second_hand p, second_wager p) of
                (Some h2, Some w2) \<Rightarrow> hand_credit dealer_final h2 w2
              | _ \<Rightarrow> 0)
      else 0)"

text \<open>
  The ace revaluation of the specification: while the value exceeds 21, the aces valued
  11 are demoted one at a time, and the walk stops as soon as the value is at most 21.
\<close>

fun demote_until :: "Card list \<Rightarrow> int \<Rightarrow> Card list \<times> int" where
  "demote_until [] v = ([], v)"
| "demote_until (c # rest) v =
     (if v \<le> LIMIT then (c # rest, v)
      else if startswith (name c) ''A'' \<and> points c = 11
      then (let (rest', v') = demote_until rest (v - 10) in (c\<lparr>points := 1\<rparr> # rest', v'))
      else (let (rest', v') = demote_until rest v in (c # rest', v')))"

definition reevaluateAces :: "Hand \<Rightarrow> Hand" where
  "reevaluateAces h =
     (let (cs, v) = demote_until (cards h) (hand_value h)
      in h\<lparr>cards := cs, hand_value := v\<rparr>)"

text \<open>
  The condition of the specification for a split: exactly two cards, of equal rank, no
  split before, and a bankroll that covers the wager. The rank of a card is its name
  without the suit sign, which takes three bytes.
\<close>

definition rank_of :: "Card \<Rightarrow> string" where
  "rank_of c = take (length (name c) - 3) (name c)"

definition may_split :: "Player \<Rightarrow> bool" where
  "may_split p =
     (length (cards (hand p)) = 2 \<and> rank_of (cards (hand p) ! 0) = rank_of (cards (hand p) ! 1)
      \<and> second_hand p = None \<and> wager p \<le> money p)"

section \<open>Properties\<close>

subsection \<open>Predicates and examples\<close>

text \<open>The cached value of a hand is the sum of the points of its cards.\<close>

definition hand_consistent :: "Hand \<Rightarrow> bool" where
  "hand_consistent h = (hand_value h = sum_list (map points (cards h)))"

text \<open>An ace that counts 11.\<close>

definition high_ace :: "Card \<Rightarrow> bool" where
  "high_ace c = (startswith (name c) ''A'' \<and> points c = 11)"

text \<open>
  What holds of every hand that the program builds: the value is the sum of the points,
  every card counts at least 1, and at most one ace counts 11.
\<close>

definition sound_hand :: "Hand \<Rightarrow> bool" where
  "sound_hand h =
     (hand_consistent h \<and> (\<forall>c\<in>set (cards h). 1 \<le> points c)
      \<and> length (filter high_ace (cards h)) \<le> 1)"

text \<open>The value of a hand with every ace counted as 1.\<close>

definition low_value :: "Hand \<Rightarrow> int" where
  "low_value h = hand_value h - 10 * int (length (filter high_ace (cards h)))"

text \<open>
  A second hand as \<open>split_hand\<close> leaves it: it holds cards and has its wager.
\<close>

definition second_hand_in_order :: "Player \<Rightarrow> bool" where
  "second_hand_in_order p =
     (case second_hand p of
        None \<Rightarrow> True
      | Some h2 \<Rightarrow> cards h2 \<noteq> [] \<and> second_wager p \<noteq> None)"

text \<open>A card that bears the name of one of the 52 cards, whatever its points are now.\<close>

definition named_card :: "Card \<Rightarrow> bool" where
  "named_card c = (name c \<in> set (map name unshuffled_deck))"

text \<open>The card of a rank in spades, as \<open>Deck.__init__\<close> creates it.\<close>

definition spade :: "string \<Rightarrow> int \<Rightarrow> Card" where
  "spade rank pts = \<lparr>name = rank @ [CHR 0xE2, CHR 0x99, CHR 0xA0], points = pts\<rparr>"

definition heart :: "string \<Rightarrow> int \<Rightarrow> Card" where
  "heart rank pts = \<lparr>name = rank @ [CHR 0xE2, CHR 0x99, CHR 0xA5], points = pts\<rparr>"

text \<open>The hand dealt from two cards, revealed.\<close>

definition dealt :: "Card \<Rightarrow> Card \<Rightarrow> Hand" where
  "dealt c1 c2 = check_blackjack (add_card (add_card new_hand c1) c2)"

text \<open>A player who has bet \<open>w\<close> out of 1000 and holds the two cards.\<close>

definition seated :: "string \<Rightarrow> int \<Rightarrow> Card \<Rightarrow> Card \<Rightarrow> Player" where
  "seated n w c1 c2 = (new_player n)\<lparr>money := 1000 - w, wager := w, hand := dealt c1 c2\<rparr>"

definition typed :: "string \<Rightarrow> Line" where
  "typed s = \<lparr>raw = s, number = None\<rparr>"

definition typed_number :: "string \<Rightarrow> int \<Rightarrow> Line" where
  "typed_number s n = \<lparr>raw = s, number = Some n\<rparr>"

subsection \<open>The arithmetic of the bonus\<close>

text \<open>
  Below \<open>2 ^ 53\<close> every integer is a double, so a wager \<open>w\<close> from 0 with \<open>3 * w\<close> below
  \<open>2 ^ 53\<close> loses nothing in \<open>int(1.5 * w)\<close>.
\<close>

lemma sig_shift_small: "n < 2 ^ 53 \<Longrightarrow> sig_shift n = 0"
  by (subst sig_shift.simps) simp

lemma round53_small: "\<bar>n\<bar> < 2 ^ 53 \<Longrightarrow> round53 n = n"
  by (simp add: round53_def Let_def sig_shift_small sgn_if)

lemma int_of_1_5_times_exact:
  assumes "0 \<le> w" "3 * w < 2 ^ 53"
  shows "int_of_1_5_times w = Inr ((3 * w) div 2)"
proof -
  have a: "round53 w = w" using assms by (intro round53_small) simp
  have b: "round53 (3 * w) = 3 * w" using assms by (intro round53_small) simp
  show ?thesis using assms
    by (simp add: int_of_1_5_times_def float_of_int_def a b Let_def signed_divide_int_def sgn_if)
qed

lemma floor_1_5: "\<lfloor>1.5 * real_of_int w\<rfloor> = (3 * w) div 2"
proof -
  have "1.5 * real_of_int w = real_of_int (3 * w) / real_of_int 2" by simp
  then show ?thesis by (simp only: floor_divide_of_int_eq)
qed

lemma settle_natural: "settle NaturalWin w = w + (3 * w) div 2"
  by (simp only: settle.simps floor_1_5)

lemma int_of_1_5_times_trunc:
  assumes "\<bar>3 * w\<bar> < 2 ^ 53"
  shows "int_of_1_5_times w = Inr ((3 * w) sdiv 2)"
proof -
  have a: "round53 w = w" using assms by (intro round53_small) simp
  have b: "round53 (3 * w) = 3 * w" using assms by (intro round53_small) simp
  show ?thesis using assms
    by (simp add: int_of_1_5_times_def float_of_int_def a b Let_def)
qed

lemma trunc_is_floor:
  "(w + (3 * w) sdiv 2 = settle NaturalWin w) = (0 \<le> w \<or> even w)"
  unfolding settle_natural signed_divide_int_def
  by (cases "0 \<le> w") (simp_all add: sgn_if, presburger+)

lemma sig_shift_band: "2 ^ 53 \<le> n \<Longrightarrow> n < 2 ^ 54 \<Longrightarrow> sig_shift n = 1"
  by (subst sig_shift.simps, simp, subst sig_shift.simps, simp)

lemma int_of_1_5_times_band:
  assumes "0 < w" "2 ^ 53 \<le> 3 * w" "3 * w < 2 ^ 54"
  shows "int_of_1_5_times w = Inr (\<lfloor>1.5 * real_of_int w\<rfloor> + (if w mod 4 = 1 then 1 else 0))"
proof -
  have a: "round53 w = w" using assms by (intro round53_small) simp
  have s: "sig_shift (3 * w) = 1" using assms by (intro sig_shift_band) simp_all
  have o: "(2 * ((3 * w) mod 2) = 2 \<and> odd ((3 * w) div 2)) = (w mod 4 = 1)"
    by presburger
  have b: "round53 (3 * w) = 2 * ((3 * w) div 2 + (if w mod 4 = 1 then 1 else 0))"
    using assms o by (simp add: round53_def Let_def s sgn_if abs_if)
  have c: "(3 * w) div 2 < 2 ^ 53" "0 < (3 * w) div 2" using assms by simp_all
  have "int_of_1_5_times w = Inr ((3 * w) div 2 + (if w mod 4 = 1 then 1 else 0))"
    using assms c
    by (simp add: int_of_1_5_times_def float_of_int_def a b Let_def
          signed_divide_int_def sgn_if abs_if)
  then show ?thesis by (simp only: floor_1_5)
qed

lemma int_of_1_5_times_error: "int_of_1_5_times w = Inl e \<Longrightarrow> e = OverflowError"
  by (auto simp: int_of_1_5_times_def float_of_int_def Let_def split: sum.splits if_splits)

subsection \<open>Settlement\<close>

lemma payout_natural_blackjacks_map:
  "payout_natural_blackjacks ps =
     (if \<exists>p\<in>set ps. blackjack (hand p) \<and> int_of_1_5_times (wager p) = Inl OverflowError
      then Inl OverflowError
      else Inr (map (\<lambda>p. if blackjack (hand p)
                          then p\<lparr>money := money p
                                   + (wager p + (case int_of_1_5_times (wager p) of
                                                   Inl e \<Rightarrow> 0 | Inr t \<Rightarrow> t))\<rparr>
                          else p) ps))"
proof (induction ps)
  case Nil
  then show ?case by simp
next
  case (Cons p ps)
  show ?case
  proof (cases "int_of_1_5_times (wager p)")
    case (Inl e)
    with int_of_1_5_times_error[OF Inl] Cons show ?thesis by auto
  next
    case (Inr t)
    with Cons show ?thesis by auto
  qed
qed

lemma payout_natural_blackjacks_floor:
  assumes "\<forall>p\<in>set ps. blackjack (hand p) \<longrightarrow>
             \<bar>3 * wager p\<bar> < 2 ^ 53 \<and> (0 \<le> wager p \<or> even (wager p))"
  shows "payout_natural_blackjacks ps
           = Inr (map (\<lambda>p. if blackjack (hand p)
                            then p\<lparr>money := money p + settle NaturalWin (wager p)\<rparr>
                            else p) ps)"
proof -
  have t: "int_of_1_5_times (wager p) = Inr ((3 * wager p) sdiv 2)"
    and f: "wager p + (3 * wager p) sdiv 2 = settle NaturalWin (wager p)"
    if "p \<in> set ps" "blackjack (hand p)" for p
    using that assms int_of_1_5_times_trunc[of "wager p"] trunc_is_floor[of "wager p"]
    by blast+
  have "\<not> (\<exists>p\<in>set ps. blackjack (hand p) \<and> int_of_1_5_times (wager p) = Inl OverflowError)"
    using t by auto
  moreover have "map (\<lambda>p. if blackjack (hand p)
                          then p\<lparr>money := money p
                                   + (wager p + (case int_of_1_5_times (wager p) of
                                                   Inl e \<Rightarrow> 0 | Inr t \<Rightarrow> t))\<rparr>
                          else p) ps
               = map (\<lambda>p. if blackjack (hand p)
                            then p\<lparr>money := money p + settle NaturalWin (wager p)\<rparr>
                            else p) ps"
    using t f by (intro map_cong) (auto simp del: settle.simps(1))
  ultimately show ?thesis by (simp only: payout_natural_blackjacks_map if_False)
qed

lemma payout_player_after_dealer_bust_credit:
  assumes "second_hand_in_order p" "hand_value dh > LIMIT"
  shows "payout_player_after_dealer_bust p = Inr (p\<lparr>money := money p + round_credit dh p\<rparr>)"
  using assms
  by (auto simp: payout_player_after_dealer_bust_def second_hand_in_order_def round_credit_def
        hand_credit_def outcome_against_def payout_hand_def Let_def
      split: option.splits)

lemma compare_player_hands_credit:
  assumes "second_hand_in_order p" "hand_value (dealer_hand d) \<le> LIMIT"
  shows "compare_player_hands p d
           = Inr (p\<lparr>money := money p + round_credit (dealer_hand d) p\<rparr>)"
  using assms
  by (auto simp: compare_player_hands_def second_hand_in_order_def round_credit_def
        hand_credit_def outcome_against_def compare_hand_def payout_hand_def Let_def
      split: option.splits)

lemma payout_after_dealer_bust_credit:
  assumes "\<forall>p\<in>set ps. second_hand_in_order p" "hand_value dh > LIMIT"
  shows "payout_after_dealer_bust ps
           = Inr (map (\<lambda>p. p\<lparr>money := money p + round_credit dh p\<rparr>) ps)"
  using assms(1)
  by (induction ps) (simp_all add: payout_player_after_dealer_bust_credit[OF _ assms(2)])

lemma compare_multiple_hands_credit:
  assumes "\<forall>p\<in>set ps. second_hand_in_order p" "hand_value (dealer_hand d) \<le> LIMIT"
  shows "compare_multiple_hands ps d
           = Inr (map (\<lambda>p. p\<lparr>money := money p + round_credit (dealer_hand d) p\<rparr>) ps)"
  using assms(1)
  by (induction ps) (simp_all add: compare_player_hands_credit[OF _ assms(2)])

lemma resolve_dealer_hand_credit:
  assumes "\<forall>p\<in>set ps. second_hand_in_order p"
    "dealer_draws (dealer_hand d) deck = Inr (dh, deck')"
  shows "resolve_dealer_hand deck d ps
           = Inr (deck', d\<lparr>dealer_hand := dh\<rparr>,
                  map (\<lambda>p. p\<lparr>money := money p + round_credit dh p\<rparr>) ps)"
proof (cases "hand_value dh > LIMIT")
  case True
  with payout_after_dealer_bust_credit[OF assms(1) True] assms(2) show ?thesis
    by (simp add: resolve_dealer_hand_def)
next
  case False
  then have "hand_value (dealer_hand (d\<lparr>dealer_hand := dh\<rparr>)) \<le> LIMIT" by simp
  from compare_multiple_hands_credit[OF assms(1) this] False assms(2) show ?thesis
    by (simp add: resolve_dealer_hand_def)
qed

text \<open>
  Claim C1, as amended. For every wager and every list of players: a win against the
  dealer (the dealer is bust, or the player's value is strictly higher) credits twice the
  wager, a push credits the wager, a loss credits nothing, for each hand that
  \<open>payout_hand\<close> and \<open>compare_hand\<close> settle and for every player whom
  \<open>resolve_dealer_hand\<close> settles. A natural blackjack credits \<open>w + int(1.5 * w)\<close>, the
  product of doubles truncated towards zero, to every player who holds one, unless the
  product is not finite, which raises \<open>OverflowError\<close>. For \<open>3 * w\<close> within \<open>2 ^ 53\<close> that
  is \<open>1.5 * w\<close> truncated towards zero, and it is \<open>w + floor(1.5 * w)\<close> exactly when \<open>w\<close> is
  not negative or is even; for a positive \<open>w\<close> with \<open>3 * w\<close> from \<open>2 ^ 53\<close> to below \<open>2 ^ 54\<close>
  it is \<open>w + floor(1.5 * w)\<close>, and one more when \<open>w mod 4\<close> is 1.
\<close>

theorem settlement_amounts:
  "payout_natural_blackjacks ps =
     (if \<exists>p\<in>set ps. blackjack (hand p) \<and> int_of_1_5_times (wager p) = Inl OverflowError
      then Inl OverflowError
      else Inr (map (\<lambda>p. if blackjack (hand p)
                          then p\<lparr>money := money p
                                   + (wager p + (case int_of_1_5_times (wager p) of
                                                   Inl e \<Rightarrow> 0 | Inr t \<Rightarrow> t))\<rparr>
                          else p) ps))
   \<and> (\<bar>3 * w\<bar> < 2 ^ 53 \<longrightarrow> int_of_1_5_times w = Inr ((3 * w) sdiv 2))
   \<and> ((w + (3 * w) sdiv 2 = settle NaturalWin w) = (0 \<le> w \<or> even w))
   \<and> (0 < w \<and> 2 ^ 53 \<le> 3 * w \<and> 3 * w < 2 ^ 54 \<longrightarrow>
        int_of_1_5_times w
          = Inr (\<lfloor>1.5 * real_of_int w\<rfloor> + (if w mod 4 = 1 then 1 else 0)))
   \<and> ((\<forall>p\<in>set ps. blackjack (hand p) \<longrightarrow>
           \<bar>3 * wager p\<bar> < 2 ^ 53 \<and> (0 \<le> wager p \<or> even (wager p))) \<longrightarrow>
        payout_natural_blackjacks ps
          = Inr (map (\<lambda>p. if blackjack (hand p)
                           then p\<lparr>money := money p + settle NaturalWin (wager p)\<rparr>
                           else p) ps))
   \<and> payout_hand p h (Some w) = Inr (p\<lparr>money := money p + settle Win w\<rparr>)
   \<and> (stand p \<and> hand_value (hand p) \<le> LIMIT \<and> second_hand p = None \<longrightarrow>
        payout_player_after_dealer_bust p = Inr (p\<lparr>money := money p + settle Win (wager p)\<rparr>))
   \<and> (hand_value d < hand_value h \<longrightarrow>
        compare_hand p h d (Some w) = Inr (p\<lparr>money := money p + settle Win w\<rparr>))
   \<and> (hand_value d = hand_value h \<longrightarrow>
        compare_hand p h d (Some w) = Inr (p\<lparr>money := money p + settle Push w\<rparr>))
   \<and> (hand_value d > hand_value h \<longrightarrow>
        compare_hand p h d (Some w) = Inr (p\<lparr>money := money p + settle Loss w\<rparr>))
   \<and> ((\<forall>p\<in>set ps. second_hand_in_order p)
        \<and> dealer_draws (dealer_hand dealer) deck = Inr (dealer_final, deck') \<longrightarrow>
        resolve_dealer_hand deck dealer ps
          = Inr (deck', dealer\<lparr>dealer_hand := dealer_final\<rparr>,
                 map (\<lambda>p. p\<lparr>money := money p + round_credit dealer_final p\<rparr>) ps))"
proof -
  have hands: "payout_hand p h (Some w) = Inr (p\<lparr>money := money p + settle Win w\<rparr>)
   \<and> (stand p \<and> hand_value (hand p) \<le> LIMIT \<and> second_hand p = None \<longrightarrow>
        payout_player_after_dealer_bust p = Inr (p\<lparr>money := money p + settle Win (wager p)\<rparr>))
   \<and> (hand_value d < hand_value h \<longrightarrow>
        compare_hand p h d (Some w) = Inr (p\<lparr>money := money p + settle Win w\<rparr>))
   \<and> (hand_value d = hand_value h \<longrightarrow>
        compare_hand p h d (Some w) = Inr (p\<lparr>money := money p + settle Push w\<rparr>))
   \<and> (hand_value d > hand_value h \<longrightarrow>
        compare_hand p h d (Some w) = Inr (p\<lparr>money := money p + settle Loss w\<rparr>))"
    by (simp add: payout_hand_def compare_hand_def payout_player_after_dealer_bust_def)
  show ?thesis
    using payout_natural_blackjacks_map[of ps] int_of_1_5_times_trunc[of w]
      trunc_is_floor[of w] int_of_1_5_times_band[of w] payout_natural_blackjacks_floor[of ps]
      hands resolve_dealer_hand_credit[of ps dealer deck dealer_final deck']
    by blast
qed

text \<open>
  Claim C1 as stated, with \<open>w + floor(1.5 * w)\<close> for every wager, fails. \<open>make_bet\<close> accepts
  the wager \<open>-1\<close>; on a natural blackjack \<open>int(1.5 * -1)\<close> is \<open>-1\<close>, the truncation of
  \<open>-1.5\<close>, so the credit is \<open>-2\<close>, where \<open>w + floor(1.5 * w)\<close> is \<open>-3\<close>. And on the wager
  3002399751580333 the product is rounded to a double before it is truncated, and comes
  out one above the floor.
\<close>

theorem settlement_counterexample:
  "payout_natural_blackjacks [seated ''Ann'' (-1) (spade ''A'' 11) (spade ''K'' 10)]
     = Inr [(seated ''Ann'' (-1) (spade ''A'' 11) (spade ''K'' 10))\<lparr>money := 1001 + (-2)\<rparr>]
   \<and> (-1) + \<lfloor>1.5 * real_of_int (-1)\<rfloor> = -3
   \<and> int_of_1_5_times 3002399751580333 = Inr 4503599627370500
   \<and> \<lfloor>1.5 * real_of_int 3002399751580333\<rfloor> = 4503599627370499"
proof -
  have a: "int_of_1_5_times (-1) = Inr (-1)"
    by (simp add: int_of_1_5_times_def float_of_int_def round53_small signed_divide_int_def)
  have b: "blackjack (hand (seated ''Ann'' (-1) (spade ''A'' 11) (spade ''K'' 10)))"
    by (simp add: seated_def dealt_def check_blackjack_def add_card_def new_hand_def
          spade_def startswith_def LIMIT_def)
  have c: "wager (seated ''Ann'' (-1) (spade ''A'' 11) (spade ''K'' 10)) = -1"
          "money (seated ''Ann'' (-1) (spade ''A'' 11) (spade ''K'' 10)) = 1001"
    by (simp_all add: seated_def)
  have d: "int_of_1_5_times 3002399751580333 = Inr 4503599627370500"
    by code_simp
  show ?thesis
    by (simp add: a b c d floor_1_5)
qed

subsection \<open>Wagers\<close>

text \<open>
  Claim C10. \<open>validate_wager\<close> rejects exactly the amounts above the maximum. So
  \<open>make_bet\<close> accepts every \<open>w\<close> up to the bankroll, the negative ones too, and leaves the
  bankroll at \<open>money - w\<close>, which is more than before when \<open>w\<close> is negative; an amount above
  the bankroll is asked again. \<open>double_down\<close> checks its additional wager with the same
  function against \<open>min(wager, money)\<close>, and takes a negative amount as well.
\<close>

theorem wager_validation:
  "(validate_wager w m \<longleftrightarrow> w \<le> m)
   \<and> (number l = Some w \<and> w \<le> money p \<longrightarrow>
        make_bet p (l # ins) = Inr (p\<lparr>wager := w, money := money p - w\<rparr>, ins)
        \<and> (w < 0 \<longrightarrow> money p < money p - w))
   \<and> (number l = Some w \<and> w > money p \<longrightarrow> make_bet p (l # ins) = make_bet p ins)
   \<and> (number l = Some w \<and> w \<le> min w0 (money p) \<and> draw_card h deck = Inr (h', deck') \<longrightarrow>
        double_down p h deck w0 (l # ins)
          = Inr (p\<lparr>money := money p - w, stand := True\<rparr>, h', deck', w0 + w, ins)
        \<and> (w < 0 \<longrightarrow> money p < money p - w))"
  by (auto simp: validate_wager_def)

subsection \<open>The value of a hand\<close>

lemma demote_aces_sum:
  "demote_aces cs v = (cs', v') \<Longrightarrow>
     v' - sum_list (map points cs') = v - sum_list (map points cs)"
proof (induction cs arbitrary: v cs' v')
  case Nil
  then show ?case by simp
next
  case (Cons c cs)
  show ?case
  proof (cases "startswith (name c) ''A'' \<and> points c = 11")
    case True
    obtain r w where r: "demote_aces cs (v - 10) = (r, w)" by (cases "demote_aces cs (v - 10)")
    from Cons.IH[OF r] Cons.prems True r show ?thesis by auto
  next
    case False
    obtain r w where r: "demote_aces cs v = (r, w)" by (cases "demote_aces cs v")
    from Cons.IH[OF r] Cons.prems False r show ?thesis by auto
  qed
qed

lemma add_card_consistent: "hand_consistent h \<Longrightarrow> hand_consistent (add_card h c)"
  by (simp add: hand_consistent_def add_card_def Let_def)

lemma reset_ace_value_consistent: "hand_consistent h \<Longrightarrow> hand_consistent (reset_ace_value h)"
proof -
  assume h: "hand_consistent h"
  obtain cs v where d: "demote_aces (cards h) (hand_value h) = (cs, v)"
    by (cases "demote_aces (cards h) (hand_value h)")
  have "reset_ace_value h = (if hand_value h > LIMIT then h\<lparr>cards := cs, hand_value := v\<rparr> else h)"
    by (simp add: reset_ace_value_def d)
  moreover have "hand_consistent (h\<lparr>cards := cs, hand_value := v\<rparr>)"
    using demote_aces_sum[OF d] h by (simp add: hand_consistent_def)
  ultimately show ?thesis using h by simp
qed

lemma draw_card_consistent:
  "hand_consistent h \<Longrightarrow> draw_card h deck = Inr (h', deck') \<Longrightarrow> hand_consistent h'"
  by (auto simp: draw_card_def deal_def add_card_consistent reset_ace_value_consistent
           split: if_splits)

lemma sum_points_butlast:
  "cs \<noteq> [] \<Longrightarrow> sum_list (map points (butlast cs)) = sum_list (map points cs) - points (last cs)"
proof -
  assume "cs \<noteq> []"
  then have "cs = butlast cs @ [last cs]" by simp
  then have "sum_list (map points cs) = sum_list (map points (butlast cs @ [last cs]))" by simp
  then show ?thesis by simp
qed

lemma split_hand_consistent:
  assumes "hand_consistent (hand p)" "split_hand p deck = Inr (p', deck')"
  shows "hand_consistent (hand p') \<and> (\<exists>h2. second_hand p' = Some h2 \<and> hand_consistent h2)"
proof -
  from assms(2) have ne: "cards (hand p) \<noteq> []"
    by (auto simp: split_hand_def split: if_splits)
  let ?sc = "last (cards (hand p))"
  let ?h1 = "(hand p)\<lparr>cards := butlast (cards (hand p)),
                        hand_value := hand_value (hand p) - points ?sc\<rparr>"
  have h1: "hand_consistent ?h1"
    using assms(1) ne by (simp add: hand_consistent_def sum_points_butlast)
  have h0: "hand_consistent new_hand" by (simp add: hand_consistent_def new_hand_def)
  from assms(2) ne show ?thesis
    by (auto simp: split_hand_def Let_def deal_def h1 h0 add_card_consistent
             split: if_splits)
qed

text \<open>
  Claim C3. The value that a hand caches is the sum of the points its cards have now: it
  is so for the empty hand, and \<open>add_card\<close>, \<open>reset_ace_value\<close>, \<open>draw_card\<close> and
  \<open>split_hand\<close> keep it so, the last for both hands it leaves, whatever the points of the
  card that is split off were.
\<close>

theorem value_is_sum_of_points:
  "hand_consistent new_hand
   \<and> (hand_consistent h \<longrightarrow> hand_consistent (add_card h c))
   \<and> (hand_consistent h \<longrightarrow> hand_consistent (reset_ace_value h))
   \<and> (hand_consistent h \<and> draw_card h deck = Inr (h', deck') \<longrightarrow> hand_consistent h')
   \<and> (hand_consistent (hand p) \<and> split_hand p deck2 = Inr (p', deck2') \<longrightarrow>
        hand_consistent (hand p') \<and> (\<exists>h2. second_hand p' = Some h2 \<and> hand_consistent h2))"
proof -
  have "hand_consistent new_hand" by (simp add: hand_consistent_def new_hand_def)
  then show ?thesis
    using add_card_consistent reset_ace_value_consistent draw_card_consistent
      split_hand_consistent by blast
qed

subsection \<open>The revaluation of the aces\<close>

text \<open>
  Once the value exceeds 21, the loop of \<open>reset_ace_value\<close> demotes every ace that counts
  11, and takes 10 off the value for each.
\<close>

lemma demote_aces_char:
  "demote_aces cs v = (map (\<lambda>c. if high_ace c then c\<lparr>points := 1\<rparr> else c) cs,
                       v - 10 * int (length (filter high_ace cs)))"
  by (induction cs arbitrary: v) (auto simp: high_ace_def)

lemma demoted_no_high_ace:
  "filter high_ace (map (\<lambda>c. if high_ace c then c\<lparr>points := 1\<rparr> else c) cs) = []"
  by (induction cs) (auto simp: high_ace_def)

lemma no_high_ace_map:
  "filter high_ace cs = [] \<Longrightarrow> map (\<lambda>c. if high_ace c then c\<lparr>points := 1\<rparr> else c) cs = cs"
  by (induction cs) (auto split: if_splits)

lemma reset_ace_value_char:
  "reset_ace_value h =
     (if hand_value h > LIMIT
      then h\<lparr>cards := map (\<lambda>c. if high_ace c then c\<lparr>points := 1\<rparr> else c) (cards h),
             hand_value := hand_value h - 10 * int (length (filter high_ace (cards h)))\<rparr>
      else h)"
  by (simp add: reset_ace_value_def demote_aces_char)

lemma demote_until_no_high_ace:
  "filter high_ace cs = [] \<Longrightarrow> demote_until cs v = (cs, v)"
  by (induction cs arbitrary: v) (auto simp: high_ace_def split: if_splits)

lemma demote_until_one:
  "length (filter high_ace cs) \<le> 1 \<Longrightarrow>
     demote_until cs v = (if v \<le> LIMIT then (cs, v) else demote_aces cs v)"
proof (induction cs arbitrary: v)
  case Nil
  then show ?case by simp
next
  case (Cons c cs)
  show ?case
  proof (cases "high_ace c")
    case True
    with Cons.prems have none: "filter high_ace cs = []" by simp
    with True show ?thesis
      by (simp add: demote_until_no_high_ace demote_aces_char no_high_ace_map)
         (simp add: high_ace_def)
  next
    case False
    with Cons.prems have "length (filter high_ace cs) \<le> 1" by simp
    from Cons.IH[OF this] False show ?thesis
      by (auto simp: high_ace_def demote_aces_char split: if_splits)
  qed
qed

text \<open>
  The hands of the program are sound. An ace is added at 11 only to a hand worth at most
  10, which then holds no ace at 11; so every hand made from the empty hand by
  \<open>add_card\<close>, \<open>draw_card\<close>, \<open>reset_ace_value\<close> and \<open>split_hand\<close>, from cards that count at
  least 1, is sound.
\<close>

lemma points_le_sum:
  "c \<in> set cs \<Longrightarrow> \<forall>x\<in>set cs. 1 \<le> points x \<Longrightarrow> points c \<le> sum_list (map points cs)"
proof (induction cs)
  case Nil
  then show ?case by simp
next
  case (Cons a cs)
  have nn: "0 \<le> sum_list (map points cs)"
    using Cons.prems(2) by (intro sum_list_nonneg) auto
  show ?case
  proof (cases "c = a")
    case True
    with nn show ?thesis by simp
  next
    case False
    with Cons have "points c \<le> sum_list (map points cs)" by simp
    moreover have "1 \<le> points a" using Cons.prems(2) by simp
    ultimately show ?thesis by simp
  qed
qed

lemma sound_high_ace_value:
  assumes "sound_hand h" "filter high_ace (cards h) \<noteq> []"
  shows "11 \<le> hand_value h"
proof -
  from assms(2) obtain c where c: "c \<in> set (cards h)" "high_ace c"
    by (metis filter_False)
  from points_le_sum[OF c(1)] assms(1) c(2) show ?thesis
    by (simp add: sound_hand_def hand_consistent_def high_ace_def)
qed

lemma sound_new_hand: "sound_hand new_hand"
  by (simp add: sound_hand_def hand_consistent_def new_hand_def)

lemma sound_add_card:
  assumes "sound_hand h" "1 \<le> points c"
  shows "sound_hand (add_card h c)"
proof (cases "filter high_ace (cards h) = []")
  case True
  with assms show ?thesis
    by (auto simp: sound_hand_def hand_consistent_def add_card_def Let_def)
next
  case False
  from sound_high_ace_value[OF assms(1) False] assms show ?thesis
    by (auto simp: sound_hand_def hand_consistent_def add_card_def Let_def high_ace_def)
qed

lemma sound_reset_ace_value:
  assumes "sound_hand h"
  shows "sound_hand (reset_ace_value h)"
proof -
  have "hand_consistent (reset_ace_value h)"
    using assms by (simp add: sound_hand_def reset_ace_value_consistent)
  then show ?thesis
    using assms by (auto simp: sound_hand_def reset_ace_value_char demoted_no_high_ace)
qed

lemma sound_draw_card:
  "sound_hand h \<Longrightarrow> \<forall>c\<in>set deck. 1 \<le> points c \<Longrightarrow> draw_card h deck = Inr (h', deck') \<Longrightarrow>
     sound_hand h' \<and> (\<forall>c\<in>set deck'. 1 \<le> points c)"
  by (auto simp: draw_card_def deal_def sound_add_card sound_reset_ace_value
           split: if_splits dest: in_set_butlastD)

lemma sound_split_hand:
  assumes "sound_hand (hand p)" "\<forall>c\<in>set deck. 1 \<le> points c"
    "split_hand p deck = Inr (p', deck')"
  shows "sound_hand (hand p') \<and> (\<exists>h2. second_hand p' = Some h2 \<and> sound_hand h2)"
proof -
  from assms(3) have ne: "cards (hand p) \<noteq> []" and dn: "deck \<noteq> []" "butlast deck \<noteq> []"
    by (auto simp: split_hand_def deal_def Let_def split: if_splits)
  let ?sc = "last (cards (hand p))"
  let ?h1 = "(hand p)\<lparr>cards := butlast (cards (hand p)),
                        hand_value := hand_value (hand p) - points ?sc\<rparr>"
  let ?sc' = "if startswith (name ?sc) ''A'' then ?sc\<lparr>points := 11\<rparr> else ?sc"
  have "length (filter high_ace (butlast (cards (hand p)))) \<le> length (filter high_ace (cards (hand p)))"
    by (subst (2) append_butlast_last_id[OF ne, symmetric]) (simp del: append_butlast_last_id)
  then have h1: "sound_hand ?h1"
    using assms(1) ne
    by (auto simp: sound_hand_def hand_consistent_def sum_points_butlast dest: in_set_butlastD)
  have "1 \<le> points ?sc" using assms(1) ne by (simp add: sound_hand_def)
  then have sc: "1 \<le> points ?sc'" by simp
  have "last (butlast deck) \<in> set deck"
    using dn(2) by (meson in_set_butlastD last_in_set)
  then have p1: "1 \<le> points (last deck)" "1 \<le> points (last (butlast deck))"
    using assms(2) dn by auto
  have a: "sound_hand (add_card ?h1 (last deck))"
    by (rule sound_add_card[OF h1 p1(1)])
  have b: "sound_hand (add_card (add_card new_hand ?sc') (last (butlast deck)))"
    by (intro sound_add_card sound_new_hand sc p1)
  from assms(3) ne dn a b show ?thesis
    by (auto simp: split_hand_def deal_def Let_def)
qed

text \<open>
  Claim C9. On every hand that the program builds, and on every hand with at most one
  ace at 11, \<open>reset_ace_value\<close> is the revaluation of the specification: while the value
  exceeds 21 it demotes the aces that count 11, one at a time and with 10 off the value
  each time, until the value is at most 21 or no such ace is left. So it is for the hand
  that \<open>draw_card\<close> hands to it, a sound hand with one card added. On a sound hand above
  21 that holds an ace at 11, the value comes down by 10 and no ace at 11 is left; a hand
  without such an ace stays as it is. And it is idempotent: it leaves every hand of value
  at most 21 unchanged, and applied twice it does what it does once.
\<close>

theorem reset_ace_value_demotes:
  "(sound_hand h \<longrightarrow> reset_ace_value h = reevaluateAces h)
   \<and> (length (filter high_ace (cards h)) \<le> 1 \<longrightarrow> reset_ace_value h = reevaluateAces h)
   \<and> (sound_hand h \<and> 1 \<le> points c \<longrightarrow>
        reset_ace_value (add_card h c) = reevaluateAces (add_card h c))
   \<and> (sound_hand h \<and> hand_value h > LIMIT \<and> filter high_ace (cards h) \<noteq> [] \<longrightarrow>
        hand_value (reset_ace_value h) = hand_value h - 10
        \<and> filter high_ace (cards (reset_ace_value h)) = [])
   \<and> (filter high_ace (cards h) = [] \<longrightarrow> reset_ace_value h = h)
   \<and> (hand_value h \<le> LIMIT \<longrightarrow> reset_ace_value h = h)
   \<and> reset_ace_value (reset_ace_value h) = reset_ace_value h"
proof -
  have one: "length (filter high_ace (cards h)) \<le> 1 \<longrightarrow> reset_ace_value h = reevaluateAces h"
    for h
    by (auto simp: reset_ace_value_def reevaluateAces_def demote_until_one)
  have snd: "sound_hand h \<longrightarrow> reset_ace_value h = reevaluateAces h" for h
    using one[of h] by (simp add: sound_hand_def)
  have add: "sound_hand h \<and> 1 \<le> points c \<longrightarrow>
        reset_ace_value (add_card h c) = reevaluateAces (add_card h c)"
    using snd[of "add_card h c"] sound_add_card[of h c] by blast
  have dem: "sound_hand h \<and> hand_value h > LIMIT \<and> filter high_ace (cards h) \<noteq> [] \<longrightarrow>
        hand_value (reset_ace_value h) = hand_value h - 10
        \<and> filter high_ace (cards (reset_ace_value h)) = []"
  proof (intro impI, elim conjE)
    assume a: "sound_hand h" "hand_value h > LIMIT" "filter high_ace (cards h) \<noteq> []"
    from a(1,3) have "length (filter high_ace (cards h)) = 1"
      by (cases "filter high_ace (cards h)") (auto simp: sound_hand_def)
    with a(2) show "hand_value (reset_ace_value h) = hand_value h - 10
        \<and> filter high_ace (cards (reset_ace_value h)) = []"
      by (simp add: reset_ace_value_char demoted_no_high_ace)
  qed
  have none: "filter high_ace (cards h) = [] \<longrightarrow> reset_ace_value h = h"
    by (simp add: reset_ace_value_char no_high_ace_map)
  have a: "hand_value h \<le> LIMIT \<longrightarrow> reset_ace_value h = h"
    by (simp add: reset_ace_value_def)
  have b: "reset_ace_value (reset_ace_value h) = reset_ace_value h"
    by (simp add: reset_ace_value_char[of "reset_ace_value h"])
       (simp add: reset_ace_value_char[of h] demoted_no_high_ace no_high_ace_map)
  from snd[of h] one[of h] add dem none a b show ?thesis by blast
qed

text \<open>
  The hypothesis is needed. A hand of two aces that both count 11 is not sound, and there
  the loop of the code, which has no exit, leaves another hand than the revaluation one
  at a time.
\<close>

lemma reset_ace_value_two_high_aces:
  "reset_ace_value \<lparr>cards = [spade ''A'' 11, heart ''A'' 11], hand_value = 22, blackjack = False\<rparr>
     = \<lparr>cards = [spade ''A'' 1, heart ''A'' 1], hand_value = 2, blackjack = False\<rparr>
   \<and> reevaluateAces \<lparr>cards = [spade ''A'' 11, heart ''A'' 11], hand_value = 22, blackjack = False\<rparr>
     = \<lparr>cards = [spade ''A'' 1, heart ''A'' 11], hand_value = 12, blackjack = False\<rparr>
   \<and> \<not> sound_hand \<lparr>cards = [spade ''A'' 11, heart ''A'' 11], hand_value = 22, blackjack = False\<rparr>"
  by (simp add: reset_ace_value_def reevaluateAces_def spade_def heart_def startswith_def LIMIT_def
        sound_hand_def high_ace_def)

subsection \<open>The dealer's loop\<close>

lemma dealer_draws_exit:
  "dealer_draws h deck = Inr (h', deck') \<Longrightarrow> 17 \<le> hand_value h'"
proof (induction h deck rule: dealer_draws.induct)
  case (1 h deck)
  show ?case
  proof (cases "hand_value h < 17")
    case True
    with "1.prems" obtain h1 d1 where d: "draw_card h deck = Inr (h1, d1)"
      and r: "dealer_draws h1 d1 = Inr (h', deck')"
      by (subst (asm) dealer_draws.simps) (auto split: sum.splits)
    from "1.IH"[OF True _ _ r] d show ?thesis by simp
  next
    case False
    with "1.prems" show ?thesis by (subst (asm) dealer_draws.simps) simp
  qed
qed

text \<open>
  The loop is left with a hand, and not with the error of the empty deck, as soon as the
  deck holds enough cards: every card drawn adds at least 1 to the value with the aces
  counted as 1. \<open>resolve_dealer_hand\<close> runs the loop on the dealer's hand and settles with
  the hand that the loop leaves.
\<close>

lemma low_value_le: "low_value h \<le> hand_value h"
  by (simp add: low_value_def)

lemma low_value_add_card:
  "1 \<le> points c \<Longrightarrow> low_value h + 1 \<le> low_value (add_card h c)"
  by (auto simp: low_value_def add_card_def Let_def high_ace_def)

lemma low_value_reset_ace_value: "low_value (reset_ace_value h) = low_value h"
  by (simp add: low_value_def reset_ace_value_char demoted_no_high_ace)

lemma dealer_draws_returns:
  "\<forall>c\<in>set deck. 1 \<le> points c \<Longrightarrow> 17 \<le> low_value h + int (length deck) \<Longrightarrow>
     \<exists>h' deck'. dealer_draws h deck = Inr (h', deck')"
proof (induction h deck rule: dealer_draws.induct)
  case (1 h deck)
  show ?case
  proof (cases "hand_value h < 17")
    case False
    then show ?thesis by (subst dealer_draws.simps) simp
  next
    case True
    with "1.prems"(2) low_value_le[of h] have ne: "deck \<noteq> []" by auto
    let ?h1 = "reset_ace_value (add_card h (last deck))"
    have d: "draw_card h deck = Inr (?h1, butlast deck)"
      using ne by (simp add: draw_card_def deal_def)
    have "1 \<le> points (last deck)" using "1.prems"(1) ne by simp
    from low_value_add_card[OF this, of h] have "low_value h + 1 \<le> low_value ?h1"
      by (simp add: low_value_reset_ace_value)
    with "1.prems"(2) ne have l: "17 \<le> low_value ?h1 + int (length (butlast deck))"
      by (simp add: Suc_leI)
    have p: "\<forall>c\<in>set (butlast deck). 1 \<le> points c"
      using "1.prems"(1) by (auto dest: in_set_butlastD)
    from "1.IH"[OF True d refl p l] True d show ?thesis
      by (subst dealer_draws.simps) simp
  qed
qed

lemma resolve_dealer_hand_draws:
  assumes "resolve_dealer_hand deck d ps = Inr (deck', d', ps')"
  shows "dealer_draws (dealer_hand d) deck = Inr (dealer_hand d', deck')
         \<and> 17 \<le> hand_value (dealer_hand d')"
proof -
  from assms obtain h where
    dd: "dealer_draws (dealer_hand d) deck = Inr (h, deck')" and e: "d' = d\<lparr>dealer_hand := h\<rparr>"
    by (auto simp: resolve_dealer_hand_def Let_def split: sum.splits if_splits)
  from dealer_draws_exit[OF dd] dd e show ?thesis by simp
qed

lemma resolve_dealer_hand_step:
  assumes "hand_value (dealer_hand d) < 17" "draw_card (dealer_hand d) deck = Inr (h1, deck1)"
  shows "resolve_dealer_hand deck d ps = resolve_dealer_hand deck1 (d\<lparr>dealer_hand := h1\<rparr>) ps"
proof -
  have "dealer_draws (dealer_hand d) deck = dealer_draws h1 deck1"
    using assms by (subst dealer_draws.simps) simp
  then show ?thesis by (auto simp: resolve_dealer_hand_def split: sum.splits)
qed

lemma resolve_dealer_hand_empty_deck:
  assumes "hand_value (dealer_hand d) < 17"
  shows "resolve_dealer_hand [] d ps = Inl IndexError"
proof -
  have "dealer_draws (dealer_hand d) [] = Inl IndexError"
    using assms by (subst dealer_draws.simps) (simp add: draw_card_def deal_def)
  then show ?thesis by (simp add: resolve_dealer_hand_def)
qed

lemma resolve_dealer_hand_stands:
  assumes "17 \<le> hand_value (dealer_hand d)" "resolve_dealer_hand deck d ps = Inr (deck', d', ps')"
  shows "deck' = deck \<and> d' = d"
proof -
  have "dealer_draws (dealer_hand d) deck = Inr (dealer_hand d, deck)"
    using assms(1) by (subst dealer_draws.simps) simp
  with assms(2) show ?thesis
    by (auto simp: resolve_dealer_hand_def Let_def split: sum.splits if_splits)
qed

lemma resolve_dealer_hand_returns:
  assumes "\<forall>p\<in>set ps. second_hand_in_order p" "\<forall>c\<in>set deck. 1 \<le> points c"
    "17 \<le> low_value (dealer_hand d) + int (length deck)"
  shows "\<exists>deck' d' ps'. resolve_dealer_hand deck d ps = Inr (deck', d', ps')"
proof -
  from dealer_draws_returns[OF assms(2,3)] obtain h deck'
    where "dealer_draws (dealer_hand d) deck = Inr (h, deck')" by blast
  from resolve_dealer_hand_credit[OF assms(1) this] show ?thesis by blast
qed

lemma dealer_turn_resolves:
  "list_ex stand ps \<Longrightarrow> \<not> blackjack (dealer_hand d) \<Longrightarrow>
     dealer_turn deck d ps = resolve_dealer_hand deck d ps"
  by (auto simp: dealer_turn_def list_ex_iff)

text \<open>
  Claim C8. While the dealer's value is below 17 the loop draws a card (and goes on with
  the hand so drawn and a shorter deck); from 17 on it draws nothing and leaves hand and
  deck as they are, a soft 17 included, since only the value is looked at; and when the
  loop is left, the value is at least 17. The dealer's turn, \<open>resolve_dealer_hand\<close>, does
  just that: below 17 it takes the next card and goes on from there, or raises on an
  empty deck; from 17 on it leaves deck and dealer as they are; whenever it returns, the
  dealer's hand is the one the loop has drawn, worth at least 17; and it does return when
  the deck holds enough cards. \<open>dealer_turn\<close> is this turn when a player stands and the
  dealer holds no natural blackjack.
\<close>

theorem dealer_draws_to_17:
  "(hand_value h < 17 \<and> draw_card h deck = Inr (h1, deck1) \<longrightarrow>
      dealer_draws h deck = dealer_draws h1 deck1 \<and> length deck1 < length deck)
   \<and> (17 \<le> hand_value h \<longrightarrow> dealer_draws h deck = Inr (h, deck))
   \<and> (dealer_draws h deck = Inr (h', deck') \<longrightarrow> 17 \<le> hand_value h')
   \<and> (hand_value (dealer_hand d) < 17 \<and> draw_card (dealer_hand d) deck = Inr (h1, deck1) \<longrightarrow>
        resolve_dealer_hand deck d ps = resolve_dealer_hand deck1 (d\<lparr>dealer_hand := h1\<rparr>) ps)
   \<and> (hand_value (dealer_hand d) < 17 \<longrightarrow> resolve_dealer_hand [] d ps = Inl IndexError)
   \<and> (17 \<le> hand_value (dealer_hand d) \<and> resolve_dealer_hand deck d ps = Inr (deck2, d2, ps2) \<longrightarrow>
        deck2 = deck \<and> d2 = d)
   \<and> (resolve_dealer_hand deck d ps = Inr (deck2, d2, ps2) \<longrightarrow>
        dealer_draws (dealer_hand d) deck = Inr (dealer_hand d2, deck2)
        \<and> 17 \<le> hand_value (dealer_hand d2))
   \<and> ((\<forall>p\<in>set ps. second_hand_in_order p) \<and> (\<forall>c\<in>set deck. 1 \<le> points c)
        \<and> 17 \<le> low_value (dealer_hand d) + int (length deck) \<longrightarrow>
        (\<exists>deck3 d3 ps3. resolve_dealer_hand deck d ps = Inr (deck3, d3, ps3)
           \<and> 17 \<le> hand_value (dealer_hand d3)))
   \<and> (list_ex stand ps \<and> \<not> blackjack (dealer_hand d) \<longrightarrow>
        dealer_turn deck d ps = resolve_dealer_hand deck d ps)"
proof -
  have a: "hand_value h < 17 \<and> draw_card h deck = Inr (h1, deck1) \<longrightarrow>
      dealer_draws h deck = dealer_draws h1 deck1 \<and> length deck1 < length deck"
    by (subst dealer_draws.simps) (auto simp: draw_card_def deal_def split: if_splits)
  have b: "17 \<le> hand_value h \<longrightarrow> dealer_draws h deck = Inr (h, deck)"
    by (subst dealer_draws.simps) simp
  have c: "dealer_draws h deck = Inr (h', deck') \<longrightarrow> 17 \<le> hand_value h'"
    using dealer_draws_exit by blast
  have e: "(\<forall>p\<in>set ps. second_hand_in_order p) \<and> (\<forall>c\<in>set deck. 1 \<le> points c)
        \<and> 17 \<le> low_value (dealer_hand d) + int (length deck) \<longrightarrow>
        (\<exists>deck3 d3 ps3. resolve_dealer_hand deck d ps = Inr (deck3, d3, ps3)
           \<and> 17 \<le> hand_value (dealer_hand d3))"
    using resolve_dealer_hand_returns[of ps deck d] resolve_dealer_hand_draws[of deck d ps]
    by blast
  from a b c e resolve_dealer_hand_step[of d deck h1 deck1 ps]
    resolve_dealer_hand_empty_deck[of d ps] resolve_dealer_hand_stands[of d deck ps deck2 d2 ps2]
    resolve_dealer_hand_draws[of deck d ps deck2 d2 ps2] dealer_turn_resolves[of ps d deck]
  show ?thesis by blast
qed

subsection \<open>The dealer's check\<close>

text \<open>
  Each of the 52 cards is an ace that counts 11 or a card that counts 2 to 10. The
  dealer's hand after \<open>deal_hands\<close> is made of two cards of the deck.
\<close>

lemma deck_card_cases:
  "deck_card c \<Longrightarrow>
     (startswith (name c) ''A'' \<and> points c = 11)
     \<or> (\<not> startswith (name c) ''A'' \<and> 2 \<le> points c \<and> points c \<le> 10)"
  by (auto simp: deck_card_def unshuffled_deck_def SUITS_def RANKS_POINTS_def startswith_def)

lemma dealt_two_value:
  assumes "deck_card c1" "deck_card c2"
  shows "cards (add_card (add_card new_hand c1) c2) \<noteq> []"
    and "length (cards (add_card (add_card new_hand c1) c2)) = 2"
    and "name (last (cards (add_card (add_card new_hand c1) c2))) = name c2"
    and "blackjack (add_card (add_card new_hand c1) c2) = False"
    and "\<not> must_check (last (cards (add_card (add_card new_hand c1) c2))) \<Longrightarrow>
           hand_value (add_card (add_card new_hand c1) c2) < LIMIT"
    and "hand_value (add_card (add_card new_hand c1) c2) \<le> LIMIT"
  using deck_card_cases[OF assms(1)] deck_card_cases[OF assms(2)]
  by (auto simp: add_card_def new_hand_def Let_def must_check_def LIMIT_def)

lemma deal_to_players_deck:
  "deal_to_players ps deck = Inr (ps', deck') \<Longrightarrow> set deck' \<subseteq> set deck"
proof (induction ps arbitrary: deck ps' deck')
  case Nil
  then show ?case by simp
next
  case (Cons p ps)
  from Cons.prems obtain ps1 where "deal_to_players ps (butlast deck) = Inr (ps1, deck')"
    by (auto simp: deal_def split: if_splits sum.splits)
  from Cons.IH[OF this] show ?case by (auto dest: in_set_butlastD)
qed

lemma deal_pass_dealer:
  "deal_pass deck ps d = Inr (deck', ps', d') \<Longrightarrow>
     set deck' \<subseteq> set deck \<and> (\<exists>c\<in>set deck. dealer_hand d' = add_card (dealer_hand d) c)"
  by (fastforce simp: deal_pass_def deal_def split: sum.splits if_splits
        dest!: deal_to_players_deck dest: in_set_butlastD)

lemma deal_hands_dealer:
  assumes "deal_hands deck ps d = Inr (deck', ps', d')" "dealer_hand d = new_hand"
  shows "\<exists>c1\<in>set deck. \<exists>c2\<in>set deck. dealer_hand d' = add_card (add_card new_hand c1) c2"
proof -
  from assms(1) obtain deck1 ps1 d1 where
    a: "deal_pass deck ps d = Inr (deck1, ps1, d1)" and b: "deal_pass deck1 ps1 d1 = Inr (deck', ps', d')"
    by (auto simp: deal_hands_def split: sum.splits)
  from deal_pass_dealer[OF a] obtain c1 where
    c1: "set deck1 \<subseteq> set deck" "c1 \<in> set deck" "dealer_hand d1 = add_card (dealer_hand d) c1"
    by blast
  from deal_pass_dealer[OF b] obtain c2 where
    c2: "c2 \<in> set deck1" "dealer_hand d' = add_card (dealer_hand d1) c2"
    by blast
  from c1 c2 assms(2) have "c2 \<in> set deck" "dealer_hand d' = add_card (add_card new_hand c1) c2"
    by auto
  with c1(2) show ?thesis by blast
qed

text \<open>
  Claim C6. For a dealer's hand dealt from two of the 52 cards, the face-up card is the
  second one dealt; the hand is checked for a natural blackjack exactly when that card
  counts 10 now or is an ace by its name (an ace demoted to 1 included); when it is not
  checked, the hand is no natural blackjack; and so after the dealer's check the
  \<open>blackjack\<close> mark of the dealer's hand says whether the hand is a natural blackjack, on
  either branch.
\<close>

theorem dealer_peek:
  assumes "deck_card c1" "deck_card c2" "dealer_hand d = add_card (add_card new_hand c1) c2"
  shows "\<exists>faceup. reveal_faceup d = Inr faceup \<and> name faceup = name c2
           \<and> (must_check faceup \<longleftrightarrow> points faceup = 10 \<or> startswith (name faceup) ''A'')
           \<and> (\<not> must_check faceup \<longrightarrow>
                 \<not> (length (cards (dealer_hand d)) = 2 \<and> hand_value (dealer_hand d) = LIMIT))
           \<and> (\<forall>ps d' ps'. dealer_check d ps = Inr (d', ps') \<longrightarrow>
                 d' = (if must_check faceup
                       then d\<lparr>dealer_hand := check_blackjack (dealer_hand d)\<rparr> else d)
                 \<and> blackjack (dealer_hand d')
                     = (length (cards (dealer_hand d)) = 2 \<and> hand_value (dealer_hand d) = LIMIT))"
proof -
  let ?f = "last (cards (dealer_hand d))"
  note two = dealt_two_value[OF assms(1,2), folded assms(3)]
  have r: "reveal_faceup d = Inr ?f" using two(1) by (simp add: reveal_faceup_def)
  have n: "\<not> must_check ?f \<longrightarrow>
             \<not> (length (cards (dealer_hand d)) = 2 \<and> hand_value (dealer_hand d) = LIMIT)"
    using two(5) by auto
  have c: "\<forall>ps d' ps'. dealer_check d ps = Inr (d', ps') \<longrightarrow>
                 d' = (if must_check ?f
                       then d\<lparr>dealer_hand := check_blackjack (dealer_hand d)\<rparr> else d)
                 \<and> blackjack (dealer_hand d')
                     = (length (cards (dealer_hand d)) = 2 \<and> hand_value (dealer_hand d) = LIMIT)"
    using two(4) n
    by (auto simp: dealer_check_def r Let_def check_blackjack_def split: sum.splits if_splits)
  from r two(3) n c show ?thesis by (simp add: must_check_def)
qed

subsection \<open>The dealer's natural blackjack\<close>

lemma player_turn_resolved:
  "blackjack (hand p) \<or> stand p \<Longrightarrow> player_turn p deck ins = Inr (p, deck, ins)"
  by (auto simp: player_turn_def)

lemma player_turns_resolved:
  "\<forall>p\<in>set ps. blackjack (hand p) \<or> stand p \<Longrightarrow> player_turns ps deck ins = Inr (ps, deck, ins)"
  by (induction ps) (simp_all add: player_turn_resolved)

lemma handle_dealer_blackjack_resolved:
  "\<forall>p\<in>set (handle_dealer_blackjack d ps). blackjack (hand p) \<or> stand p"
  by (auto simp: handle_dealer_blackjack_def)

text \<open>
  Claim C2. When the dealer's check finds a natural blackjack, the round from the
  revealing of the hands to the settlement does this and nothing more: a player whose
  hand is a natural blackjack gets the wager back, every other player is marked as
  standing and gets nothing; the deck and the input come back as they were, so no player
  is asked anything or draws a card, and the dealer's hand is the one dealt, which the
  dealer's turn has not touched.
\<close>

theorem dealer_natural_ends_round:
  assumes "reveal_faceup d = Inr faceup" "must_check faceup"
    "length (cards (dealer_hand d)) = 2" "hand_value (dealer_hand d) = LIMIT"
  shows "play_dealt_round ps d deck ins =
           Inr (map (\<lambda>p. if length (cards (hand p)) = 2 \<and> hand_value (hand p) = LIMIT
                          then p\<lparr>hand := check_blackjack (hand p), money := money p + wager p\<rparr>
                          else p\<lparr>hand := check_blackjack (hand p), stand := True\<rparr>) ps,
                d\<lparr>dealer_hand := check_blackjack (dealer_hand d)\<rparr>, deck, ins)"
proof -
  let ?d1 = "d\<lparr>dealer_hand := check_blackjack (dealer_hand d)\<rparr>"
  let ?ps1 = "handle_dealer_blackjack ?d1 (map reveal_initial_hand ps)"
  have bj: "blackjack (dealer_hand ?d1)" using assms(3,4) by (simp add: check_blackjack_def)
  have c: "dealer_check d (map reveal_initial_hand ps) = Inr (?d1, ?ps1)"
    using assms(1,2) bj by (simp add: dealer_check_def Let_def)
  have t: "player_turns ?ps1 deck ins = Inr (?ps1, deck, ins)"
    by (rule player_turns_resolved) (rule handle_dealer_blackjack_resolved)
  have e: "dealer_turn deck ?d1 ?ps1 = Inr (deck, ?d1, ?ps1)"
    using bj by (simp add: dealer_turn_def list_ex_iff)
  have m: "?ps1 = map (\<lambda>p. if length (cards (hand p)) = 2 \<and> hand_value (hand p) = LIMIT
                          then p\<lparr>hand := check_blackjack (hand p), money := money p + wager p\<rparr>
                          else p\<lparr>hand := check_blackjack (hand p), stand := True\<rparr>) ps"
    by (auto simp: handle_dealer_blackjack_def reveal_initial_hand_def check_blackjack_def)
  show ?thesis
    unfolding play_dealt_round_def c using t e m by simp
qed

subsection \<open>A bust\<close>

lemma double_down_money:
  "double_down p h deck w ins = Inr (p1, h1, deck1, w1, ins1) \<Longrightarrow>
     money p1 + w1 = money p + w \<and> second_hand p1 = second_hand p \<and> wager p1 = wager p
     \<and> second_wager p1 = second_wager p \<and> hand p1 = hand p"
  by (induction ins) (auto simp: Let_def split: option.splits if_splits sum.splits)

lemma split_hand_second:
  "split_hand p deck = Inr (p1, deck1) \<Longrightarrow> second_hand p1 \<noteq> None"
  by (auto simp: split_hand_def Let_def split: if_splits sum.splits)

lemma first_hand_loop_second:
  "first_hand_loop p deck ins = Inr (p1, deck1, ins1) \<Longrightarrow> second_hand p \<noteq> None \<Longrightarrow>
     second_hand p1 \<noteq> None"
proof (induction p deck ins rule: first_hand_loop.induct)
  case (1 p deck ins)
  from "1.prems"(1) show ?case
    apply (subst (asm) first_hand_loop.simps)
    using "1.IH" "1.prems"(2)
    by (auto split: if_splits sum.splits list.splits dest!: double_down_money split_hand_second
        simp: split_offered_def)
qed

lemma first_hand_loop_second_False:
  "first_hand_loop p deck ins = Inr (p1, deck1, ins1) \<Longrightarrow> second_hand p = Some y \<Longrightarrow>
     second_hand p1 = None \<Longrightarrow> False"
  using first_hand_loop_second by fastforce

lemma first_hand_loop_money:
  "first_hand_loop p deck ins = Inr (p1, deck1, ins1) \<Longrightarrow> second_hand p1 = None \<Longrightarrow>
     money p1 + wager p1 = money p + wager p"
proof (induction p deck ins rule: first_hand_loop.induct)
  case (1 p deck ins)
  from "1.prems"(1) show ?case
    apply (subst (asm) first_hand_loop.simps)
    using "1.IH" "1.prems"(2)
    by (auto split: if_splits sum.splits list.splits
        dest!: double_down_money split_hand_second dest: first_hand_loop_second_False)
qed

lemma second_hand_loop_second:
  "second_hand_loop p deck ins = Inr (p1, deck1, ins1) \<Longrightarrow> second_hand p1 \<noteq> None"
proof (induction p deck ins rule: second_hand_loop.induct)
  case (1 p deck ins)
  from "1.prems"(1) show ?case
    apply (subst (asm) second_hand_loop.simps)
    using "1.IH"
    by (auto split: if_splits sum.splits list.splits option.splits)
qed

lemma after_first_hand_fields:
  "money (after_first_hand p) = money p" "wager (after_first_hand p) = wager p"
  "second_hand (after_first_hand p) = second_hand p" "hand (after_first_hand p) = hand p"
  "hand_value (hand p) > LIMIT \<Longrightarrow> stand (after_first_hand p) = False"
  by (simp_all add: after_first_hand_def Let_def)

lemma after_second_hand_second:
  "after_second_hand p = Inr p1 \<Longrightarrow> second_hand p1 = second_hand p"
  by (auto simp: after_second_hand_def Let_def split: option.splits if_splits)

lemma player_turn_single_hand:
  assumes "player_turn p deck ins = Inr (p', deck', ins')" "second_hand p' = None"
    "blackjack (hand p) = False" "stand p = False"
  shows "\<exists>p1. first_hand_loop p deck ins = Inr (p1, deck', ins') \<and> p' = after_first_hand p1"
proof -
  from assms(1,3,4) obtain p1 d1 i1 where f: "first_hand_loop p deck ins = Inr (p1, d1, i1)"
    by (auto simp: player_turn_def split: sum.splits)
  show ?thesis
  proof (cases "truthy (second_hand (after_first_hand p1))")
    case True
    with assms(1,3,4) f have "second_hand p' \<noteq> None"
      by (auto simp: player_turn_def Let_def after_first_hand_fields
          split: sum.splits option.splits list.splits if_splits
          dest!: second_hand_loop_second after_second_hand_second)
    with assms(2) show ?thesis by simp
  next
    case False
    with assms(1,3,4) f show ?thesis by (auto simp: player_turn_def Let_def)
  qed
qed

lemma payout_after_dealer_bust_nth:
  "payout_after_dealer_bust (xs @ p # ys) = Inr qs \<Longrightarrow>
     length xs < length qs \<and> payout_player_after_dealer_bust p = Inr (qs ! length xs)"
proof (induction xs arbitrary: qs)
  case Nil
  then show ?case by (auto split: sum.splits)
next
  case (Cons x xs)
  from Cons.prems obtain x' qs' where q: "qs = x' # qs'"
    and r: "payout_after_dealer_bust (xs @ p # ys) = Inr qs'"
    by (auto split: sum.splits)
  from Cons.IH[OF r] q show ?case by simp
qed

lemma compare_multiple_hands_nth:
  "compare_multiple_hands (xs @ p # ys) d = Inr qs \<Longrightarrow>
     length xs < length qs \<and> compare_player_hands p d = Inr (qs ! length xs)"
proof (induction xs arbitrary: qs)
  case Nil
  then show ?case by (auto split: sum.splits)
next
  case (Cons x xs)
  from Cons.prems obtain x' qs' where q: "qs = x' # qs'"
    and r: "compare_multiple_hands (xs @ p # ys) d = Inr qs'"
    by (auto split: sum.splits)
  from Cons.IH[OF r] q show ?case by simp
qed

lemma dealer_turn_not_standing:
  assumes "stand p = False" "dealer_turn deck d (xs @ p # ys) = Inr (deck', d', qs)"
  shows "qs ! length xs = p"
proof -
  from assms(2) consider
    (idle) "qs = xs @ p # ys" |
    (played) "resolve_dealer_hand deck d (xs @ p # ys) = Inr (deck', d', qs)"
    unfolding dealer_turn_def by (auto split: if_splits)
  then show ?thesis
  proof cases
    case idle
    then show ?thesis by simp
  next
    case played
    have a: "payout_player_after_dealer_bust p = Inr p" "\<And>e. compare_player_hands p e = Inr p"
      using assms(1)
      by (simp_all add: payout_player_after_dealer_bust_def compare_player_hands_def)
    from played a show ?thesis
      by (auto simp: resolve_dealer_hand_def Let_def split: sum.splits if_splits
          dest!: payout_after_dealer_bust_nth compare_multiple_hands_nth)
  qed
qed

text \<open>
  Claim C5, as amended. A player who takes a turn and ends it with a single hand worth
  more than 21 is not marked as standing. The bankroll is the amount after the bet less
  what the player has added to the wager in a double-down, and so the amount after the
  bet when nothing was added. Neither settlement pays anything: with the dealer bust as
  well as in the comparison with the dealer the player comes back unchanged, and so from
  the dealer's turn, wherever the player sits in the list.
\<close>

theorem bust_forfeits:
  assumes "blackjack (hand p) = False" "stand p = False"
    "player_turn p deck ins = Inr (p', deck', ins')"
    "second_hand p' = None" "hand_value (hand p') > LIMIT"
  shows "stand p' = False
         \<and> money p' + wager p' = money p + wager p
         \<and> (wager p' = wager p \<longrightarrow> money p' = money p)
         \<and> payout_player_after_dealer_bust p' = Inr p'
         \<and> compare_player_hands p' dealer = Inr p'
         \<and> payout_after_dealer_bust [p'] = Inr [p']
         \<and> compare_multiple_hands [p'] dealer = Inr [p']
         \<and> (\<forall>xs ys deck0 deck1 dealer1 qs.
               dealer_turn deck0 dealer (xs @ p' # ys) = Inr (deck1, dealer1, qs) \<longrightarrow>
               qs ! length xs = p')"
proof -
  from player_turn_single_hand[OF assms(3,4,1,2)] obtain p1
    where f: "first_hand_loop p deck ins = Inr (p1, deck', ins')" and e: "p' = after_first_hand p1"
    by blast
  from assms(4,5) e have s: "second_hand p1 = None" "hand_value (hand p1) > LIMIT"
    by (simp_all add: after_first_hand_fields)
  have st: "stand p' = False" using s(2) e by (simp add: after_first_hand_fields)
  have m: "money p' + wager p' = money p + wager p"
    using first_hand_loop_money[OF f s(1)] e by (simp add: after_first_hand_fields)
  have t: "\<forall>xs ys deck0 deck1 dealer1 qs.
               dealer_turn deck0 dealer (xs @ p' # ys) = Inr (deck1, dealer1, qs) \<longrightarrow>
               qs ! length xs = p'"
    using dealer_turn_not_standing[OF st] by blast
  from st m t show ?thesis
    by (auto simp: payout_player_after_dealer_bust_def compare_player_hands_def)
qed

text \<open>
  Claim C5 as stated, with the bankroll unchanged from the amount after the bet, fails on
  a double-down. With 1000, a bet of 20 leaves 980; on a king and a six the player doubles
  down with 20 more and draws an eight: the hand is worth 24, the player does not stand,
  and the bankroll is 960.
\<close>

theorem bust_forfeits_counterexample:
  "player_turn (seated ''Ann'' 20 (spade ''K'' 10) (spade ''6'' 6)) [spade ''2'' 2, spade ''8'' 8]
     [typed ''D'', typed_number ''20'' 20]
     = Inr ((seated ''Ann'' 20 (spade ''K'' 10) (spade ''6'' 6))
              \<lparr>hand := add_card (dealt (spade ''K'' 10) (spade ''6'' 6)) (spade ''8'' 8),
                money := 960, wager := 40\<rparr>,
            [spade ''2'' 2], [])
   \<and> money (seated ''Ann'' 20 (spade ''K'' 10) (spade ''6'' 6)) = 980
   \<and> stand (seated ''Ann'' 20 (spade ''K'' 10) (spade ''6'' 6)) = False
   \<and> second_hand (seated ''Ann'' 20 (spade ''K'' 10) (spade ''6'' 6)) = None
   \<and> hand_value (add_card (dealt (spade ''K'' 10) (spade ''6'' 6)) (spade ''8'' 8)) = 24"
proof -
  have "player_turn (seated ''Ann'' 20 (spade ''K'' 10) (spade ''6'' 6)) [spade ''2'' 2, spade ''8'' 8]
     [typed ''D'', typed_number ''20'' 20]
     = Inr ((seated ''Ann'' 20 (spade ''K'' 10) (spade ''6'' 6))
              \<lparr>hand := add_card (dealt (spade ''K'' 10) (spade ''6'' 6)) (spade ''8'' 8),
                money := 960, wager := 40\<rparr>,
            [spade ''2'' 2], [])"
    by code_simp
  then show ?thesis
    by (simp add: seated_def new_player_def dealt_def check_blackjack_def add_card_def
          new_hand_def spade_def startswith_def LIMIT_def)
qed

subsection \<open>Splitting\<close>

lemma named_card_name:
  "named_card c \<Longrightarrow>
     \<exists>r s. r \<in> set (map fst RANKS_POINTS) \<and> s \<in> set SUITS \<and> name c = r @ s"
  apply (auto simp: named_card_def unshuffled_deck_def)
  subgoal for xa a b by (rule bexI[of _ "(a, b)"]) auto
  done

lemma startswith_A: "startswith s ''A'' \<Longrightarrow> \<exists>t. s = CHR ''A'' # t"
  by (cases s) (simp_all add: startswith_def)

lemma rank_of_name:
  "r \<in> set (map fst RANKS_POINTS) \<Longrightarrow> s \<in> set SUITS \<Longrightarrow> name c = r @ s \<Longrightarrow>
     rank_of c = r \<and> (\<exists>a t. r = a # t)"
  by (auto simp: rank_of_def SUITS_def RANKS_POINTS_def)

lemma ranks_first_char:
  "a # t \<in> set (map fst RANKS_POINTS) \<Longrightarrow> b # u \<in> set (map fst RANKS_POINTS) \<Longrightarrow>
     (a = b) = (a # t = b # u)"
  by (auto simp: RANKS_POINTS_def)

lemma split_offered_may_split:
  assumes "\<forall>c\<in>set (cards (hand p)). named_card c"
  shows "split_offered p = Inr (may_split p)"
proof (cases "length (cards (hand p)) = 2")
  case False
  then show ?thesis by (simp add: split_offered_def may_split_def)
next
  case True
  then obtain c0 c1 where cs: "cards (hand p) = [c0, c1]"
    by (cases "cards (hand p)"; cases "tl (cards (hand p))") auto
  with assms have n: "named_card c0" "named_card c1" by simp_all
  from named_card_name[OF n(1)] obtain r0 s0 where
    r0: "r0 \<in> set (map fst RANKS_POINTS)" "s0 \<in> set SUITS" "name c0 = r0 @ s0" by blast
  from named_card_name[OF n(2)] obtain r1 s1 where
    r1: "r1 \<in> set (map fst RANKS_POINTS)" "s1 \<in> set SUITS" "name c1 = r1 @ s1" by blast
  from rank_of_name[OF r0] obtain a t where k0: "rank_of c0 = r0" "r0 = a # t" by blast
  from rank_of_name[OF r1] obtain b u where k1: "rank_of c1 = r1" "r1 = b # u" by blast
  from ranks_first_char[of a t b u] r0(1) r1(1) k0(2) k1(2)
  have "(a = b) = (r0 = r1)" by simp
  then show ?thesis
    using cs r0(3) r1(3) k0 k1 by (auto simp: split_offered_def may_split_def)
qed

lemma split_hand_result:
  assumes "length (cards (hand p)) = 2" "2 \<le> length deck"
  shows "\<exists>p1 deck1 h2 w2. split_hand p deck = Inr (p1, deck1)
           \<and> second_hand p1 = Some h2 \<and> second_wager p1 = Some w2
           \<and> length (cards (hand p1)) = 2 \<and> length (cards h2) = 2
           \<and> wager p1 = wager p \<and> wager p1 + w2 = 2 * wager p
           \<and> money p1 = money p - wager p \<and> stand p1 = stand p
           \<and> length deck1 + 2 = length deck"
proof -
  from assms(1) have ne: "cards (hand p) \<noteq> []" by auto
  from assms(2) have d: "deck \<noteq> []" "butlast deck \<noteq> []"
    by (auto simp: butlast_conv_take)
  show ?thesis
    using assms ne d
    by (simp add: split_hand_def deal_def Let_def add_card_def new_hand_def)
qed

text \<open>
  Claim C4. For a hand of cards of the deck, the condition that the code tests (on the
  first characters of the two names) is the condition of the specification: two cards,
  equal ranks, no split before, bankroll at least the wager. In a turn of the decision
  loop the choice \<open>P\<close> splits the hand exactly under this condition, and is otherwise
  passed over like any line that is no choice. After a split, with two cards left in the
  deck, each of the two hands has two cards, the second wager is the first, so that the
  two make twice the wager, and the bankroll has paid the second.
\<close>

theorem split_condition:
  assumes "\<forall>c\<in>set (cards (hand p)). named_card c"
  shows "split_offered p = Inr (may_split p)
    \<and> (hand_value (hand p) < LIMIT \<and> upper (raw l) = ''P'' \<longrightarrow>
         first_hand_loop p deck (l # ins) =
           (if may_split p then
              (case split_hand p deck of
                 Inl e \<Rightarrow> Inl e
               | Inr (p1, deck1) \<Rightarrow>
                   (case split_of_aces p1 of
                      Inl e \<Rightarrow> Inl e
                    | Inr aces \<Rightarrow>
                        if aces then Inr (p1\<lparr>stand := True\<rparr>, deck1, ins)
                        else first_hand_loop p1 deck1 ins))
            else first_hand_loop p deck ins))
    \<and> (may_split p \<and> 2 \<le> length deck \<longrightarrow>
         (\<exists>p1 deck1 h2 w2. split_hand p deck = Inr (p1, deck1)
            \<and> second_hand p1 = Some h2 \<and> second_wager p1 = Some w2
            \<and> length (cards (hand p1)) = 2 \<and> length (cards h2) = 2
            \<and> wager p1 + w2 = 2 * wager p \<and> money p1 = money p - wager p))"
proof -
  note so = split_offered_may_split[OF assms]
  have a: "hand_value (hand p) < LIMIT \<and> upper (raw l) = ''P'' \<longrightarrow>
         first_hand_loop p deck (l # ins) =
           (if may_split p then
              (case split_hand p deck of
                 Inl e \<Rightarrow> Inl e
               | Inr (p1, deck1) \<Rightarrow>
                   (case split_of_aces p1 of
                      Inl e \<Rightarrow> Inl e
                    | Inr aces \<Rightarrow>
                        if aces then Inr (p1\<lparr>stand := True\<rparr>, deck1, ins)
                        else first_hand_loop p1 deck1 ins))
            else first_hand_loop p deck ins)"
    by (subst first_hand_loop.simps) (simp add: so)
  have b: "may_split p \<and> 2 \<le> length deck \<longrightarrow>
         (\<exists>p1 deck1 h2 w2. split_hand p deck = Inr (p1, deck1)
            \<and> second_hand p1 = Some h2 \<and> second_wager p1 = Some w2
            \<and> length (cards (hand p1)) = 2 \<and> length (cards h2) = 2
            \<and> wager p1 + w2 = 2 * wager p \<and> money p1 = money p - wager p)"
    using split_hand_result[of p deck] by (auto simp: may_split_def)
  from so a b show ?thesis by blast
qed

text \<open>
  Claim C7. A player who holds two aces of the deck as dealt, and chooses \<open>P\<close> with at
  least two cards of the deck left: the split is made, the player is marked as standing,
  and the turn ends there. The two hands are those the split has made, of two cards
  each; the deck has lost the two cards of the split and no other; and the input after
  the choice is untouched, so no further decision is asked for either hand.
\<close>

theorem split_aces_stand:
  assumes "deck_card a1" "deck_card a2" "startswith (name a1) ''A''" "startswith (name a2) ''A''"
    "hand p = dealt a1 a2" "stand p = False" "second_hand p = None" "wager p \<le> money p"
    "upper (raw l) = ''P''" "\<forall>c\<in>set deck. deck_card c" "2 \<le> length deck"
  shows "\<exists>p1 deck1 h2. split_hand p deck = Inr (p1, deck1) \<and> second_hand p1 = Some h2
           \<and> length (cards (hand p1)) = 2 \<and> length (cards h2) = 2
           \<and> length deck1 + 2 = length deck
           \<and> first_hand_loop p deck (l # ins) = Inr (p1\<lparr>stand := True\<rparr>, deck1, ins)
           \<and> player_turn p deck (l # ins) = Inr (p1\<lparr>stand := True\<rparr>, deck1, ins)"
proof -
  from deck_card_cases[OF assms(1)] deck_card_cases[OF assms(2)] assms(3,4)
  have pts: "points a1 = 11" "points a2 = 11" by auto
  have h: "cards (hand p) = [a1, a2\<lparr>points := 1\<rparr>]" "hand_value (hand p) = 12"
    "blackjack (hand p) = False"
    using assms(3,4,5) pts
    by (simp_all add: dealt_def check_blackjack_def add_card_def new_hand_def Let_def LIMIT_def)
  from startswith_A[OF assms(3)] startswith_A[OF assms(4)]
  obtain t1 t2 where nm: "name a1 = CHR ''A'' # t1" "name a2 = CHR ''A'' # t2" by blast
  have so: "split_offered p = Inr True"
    using h assms(7,8) nm by (simp add: split_offered_def)
  from assms(11) have dn: "deck \<noteq> []" "butlast deck \<noteq> []" by (auto simp: butlast_conv_take)
  let ?c1 = "last deck"
  let ?c2 = "last (butlast deck)"
  have dc1: "deck_card ?c1" using assms(10) dn by simp
  let ?h1 = "add_card \<lparr>cards = [a1], hand_value = 11, blackjack = False\<rparr> ?c1"
  let ?h2 = "add_card (add_card new_hand (a2\<lparr>points := 11\<rparr>)) ?c2"
  let ?p1 = "p\<lparr>hand := ?h1, second_hand := Some ?h2, second_wager := Some (wager p),
                money := money p - wager p\<rparr>"
  have sp: "split_hand p deck = Inr (?p1, butlast (butlast deck))"
    using h dn assms(4)
    by (cases "hand p") (simp add: split_hand_def deal_def Let_def)
  have v1: "hand_value ?h1 \<le> LIMIT" "cards ?h1 = [a1, (if startswith (name ?c1) ''A'' then ?c1\<lparr>points := 1\<rparr> else ?c1)]"
    using deck_card_cases[OF dc1] by (auto simp: add_card_def Let_def LIMIT_def)
  have c2: "\<exists>x. cards ?h2 = [a2\<lparr>points := 11\<rparr>, x]"
    by (simp add: add_card_def Let_def new_hand_def)
  have aces: "split_of_aces ?p1 = Inr True"
    using v1(2) c2 assms(3,4) by (auto simp: split_of_aces_def)
  have fl: "first_hand_loop p deck (l # ins) = Inr (?p1\<lparr>stand := True\<rparr>, butlast (butlast deck), ins)"
    by (subst first_hand_loop.simps) (simp add: h so assms(9) sp aces LIMIT_def)
  have af: "after_first_hand (?p1\<lparr>stand := True\<rparr>) = ?p1\<lparr>stand := True\<rparr>"
    using v1(1) by (auto simp: after_first_hand_def Let_def)
  have pt: "player_turn p deck (l # ins) = Inr (?p1\<lparr>stand := True\<rparr>, butlast (butlast deck), ins)"
    using c2 assms(4,6) h(3)
    by (auto simp: player_turn_def fl af truthy_def)
  have len: "length (butlast (butlast deck)) + 2 = length deck" using assms(11) by simp
  have l1: "length (cards (hand ?p1)) = 2" using v1(2) by simp
  have l2: "length (cards ?h2) = 2" using c2 by auto
  from sp fl pt len l1 l2 show ?thesis by simp
qed

subsection \<open>The claims at concrete inputs\<close>

lemmas example_defs = seated_def dealt_def check_blackjack_def add_card_def new_hand_def
  new_player_def spade_def heart_def startswith_def LIMIT_def typed_def typed_number_def

lemmas deck_defs = deck_card_def named_card_def unshuffled_deck_def SUITS_def RANKS_POINTS_def

text \<open>
  C1 on wagers of 10: a natural blackjack brings 25 and leaves the next player alone; a
  dealer who stands on 17 pushes a 17, pays 20 to an 18 and nothing to a 16, and nothing
  to a player who does not stand; a dealer who busts pays 20 to each player who stands.
  On the wager \<open>-2\<close> truncation and floor agree.
\<close>

theorem settlement_amounts_witness:
  "payout_natural_blackjacks
     [seated ''Ann'' 10 (spade ''A'' 11) (spade ''K'' 10), seated ''Bob'' 10 (spade ''9'' 9) (spade ''8'' 8)]
     = Inr [(seated ''Ann'' 10 (spade ''A'' 11) (spade ''K'' 10))\<lparr>money := 1015\<rparr>,
            seated ''Bob'' 10 (spade ''9'' 9) (spade ''8'' 8)]
   \<and> int_of_1_5_times (-2) = Inr (-3) \<and> settle NaturalWin (-2) = -5
   \<and> resolve_dealer_hand [spade ''2'' 2] \<lparr>dealer_hand = dealt (spade ''K'' 10) (spade ''7'' 7)\<rparr>
        [(seated ''Bob'' 10 (spade ''9'' 9) (spade ''8'' 8))\<lparr>stand := True\<rparr>,
         (seated ''Cy'' 10 (spade ''9'' 9) (heart ''9'' 9))\<lparr>stand := True\<rparr>,
         (seated ''Di'' 10 (spade ''9'' 9) (spade ''7'' 7))\<lparr>stand := True\<rparr>,
         seated ''Ed'' 10 (spade ''K'' 10) (heart ''K'' 10)]
     = Inr ([spade ''2'' 2], \<lparr>dealer_hand = dealt (spade ''K'' 10) (spade ''7'' 7)\<rparr>,
            [(seated ''Bob'' 10 (spade ''9'' 9) (spade ''8'' 8))\<lparr>stand := True, money := 1000\<rparr>,
             (seated ''Cy'' 10 (spade ''9'' 9) (heart ''9'' 9))\<lparr>stand := True, money := 1010\<rparr>,
             (seated ''Di'' 10 (spade ''9'' 9) (spade ''7'' 7))\<lparr>stand := True, money := 990\<rparr>,
             seated ''Ed'' 10 (spade ''K'' 10) (heart ''K'' 10)])
   \<and> resolve_dealer_hand [spade ''2'' 2, spade ''K'' 10]
        \<lparr>dealer_hand = dealt (spade ''9'' 9) (spade ''7'' 7)\<rparr>
        [(seated ''Bob'' 10 (spade ''9'' 9) (spade ''8'' 8))\<lparr>stand := True\<rparr>,
         seated ''Ed'' 10 (spade ''K'' 10) (heart ''K'' 10)]
     = Inr ([spade ''2'' 2],
            \<lparr>dealer_hand = add_card (dealt (spade ''9'' 9) (spade ''7'' 7)) (spade ''K'' 10)\<rparr>,
            [(seated ''Bob'' 10 (spade ''9'' 9) (spade ''8'' 8))\<lparr>stand := True, money := 1010\<rparr>,
             seated ''Ed'' 10 (spade ''K'' 10) (heart ''K'' 10)])
   \<and> compare_hand (seated ''Bob'' 10 (spade ''9'' 9) (spade ''8'' 8)) (dealt (spade ''9'' 9) (spade ''8'' 8))
        (dealt (spade ''K'' 10) (spade ''6'' 6)) (Some 10)
     = Inr ((seated ''Bob'' 10 (spade ''9'' 9) (spade ''8'' 8))\<lparr>money := 1010\<rparr>)
   \<and> compare_hand (seated ''Bob'' 10 (spade ''9'' 9) (spade ''8'' 8)) (dealt (spade ''9'' 9) (spade ''8'' 8))
        (dealt (spade ''K'' 10) (spade ''7'' 7)) (Some 10)
     = Inr ((seated ''Bob'' 10 (spade ''9'' 9) (spade ''8'' 8))\<lparr>money := 1000\<rparr>)
   \<and> compare_hand (seated ''Bob'' 10 (spade ''9'' 9) (spade ''8'' 8)) (dealt (spade ''9'' 9) (spade ''8'' 8))
        (dealt (spade ''K'' 10) (spade ''9'' 9)) (Some 10)
     = Inr ((seated ''Bob'' 10 (spade ''9'' 9) (spade ''8'' 8))\<lparr>money := 990\<rparr>)"
proof -
  let ?ann = "seated ''Ann'' 10 (spade ''A'' 11) (spade ''K'' 10)"
  let ?bob = "seated ''Bob'' 10 (spade ''9'' 9) (spade ''8'' 8)"
  let ?cy = "seated ''Cy'' 10 (spade ''9'' 9) (heart ''9'' 9)"
  let ?di = "seated ''Di'' 10 (spade ''9'' 9) (spade ''7'' 7)"
  let ?ed = "seated ''Ed'' 10 (spade ''K'' 10) (heart ''K'' 10)"
  let ?d17 = "\<lparr>dealer_hand = dealt (spade ''K'' 10) (spade ''7'' 7)\<rparr>"
  let ?d16 = "\<lparr>dealer_hand = dealt (spade ''9'' 9) (spade ''7'' 7)\<rparr>"
  let ?h26 = "add_card (dealt (spade ''9'' 9) (spade ''7'' 7)) (spade ''K'' 10)"
  let ?ps = "[?bob\<lparr>stand := True\<rparr>, ?cy\<lparr>stand := True\<rparr>, ?di\<lparr>stand := True\<rparr>, ?ed]"
  have n: "payout_natural_blackjacks [?ann, ?bob] = Inr [?ann\<lparr>money := 1015\<rparr>, ?bob]"
    using settlement_amounts [where ps = "[?ann, ?bob]"]
    by (simp add: example_defs settle_natural del: settle.simps(1))
  have t: "int_of_1_5_times (-2) = Inr (-3)" "settle NaturalWin (-2) = -5"
    using settlement_amounts [where w = "-2"]
    by (simp_all add: settle_natural signed_divide_int_def del: settle.simps(1))
  have d17: "dealer_draws (dealer_hand ?d17) [spade ''2'' 2] = Inr (dealer_hand ?d17, [spade ''2'' 2])"
    by code_simp
  have d16: "dealer_draws (dealer_hand ?d16) [spade ''2'' 2, spade ''K'' 10] = Inr (?h26, [spade ''2'' 2])"
    by code_simp
  have r17: "resolve_dealer_hand [spade ''2'' 2] ?d17 ?ps
      = Inr ([spade ''2'' 2], ?d17,
             [?bob\<lparr>stand := True, money := 1000\<rparr>, ?cy\<lparr>stand := True, money := 1010\<rparr>,
              ?di\<lparr>stand := True, money := 990\<rparr>, ?ed])"
    using settlement_amounts [where ps = ?ps and dealer = ?d17 and deck = "[spade ''2'' 2]"
        and dealer_final = "dealer_hand ?d17" and deck' = "[spade ''2'' 2]"] d17
    by (simp add: second_hand_in_order_def round_credit_def hand_credit_def outcome_against_def
          example_defs)
  have r16: "resolve_dealer_hand [spade ''2'' 2, spade ''K'' 10] ?d16 [?bob\<lparr>stand := True\<rparr>, ?ed]
      = Inr ([spade ''2'' 2], \<lparr>dealer_hand = ?h26\<rparr>, [?bob\<lparr>stand := True, money := 1010\<rparr>, ?ed])"
    using settlement_amounts [where ps = "[?bob\<lparr>stand := True\<rparr>, ?ed]" and dealer = ?d16
        and deck = "[spade ''2'' 2, spade ''K'' 10]" and dealer_final = ?h26
        and deck' = "[spade ''2'' 2]"] d16
    by (simp add: second_hand_in_order_def round_credit_def hand_credit_def outcome_against_def
          example_defs)
  have c: "compare_hand ?bob (dealt (spade ''9'' 9) (spade ''8'' 8))
        (dealt (spade ''K'' 10) (spade ''6'' 6)) (Some 10) = Inr (?bob\<lparr>money := 1010\<rparr>)"
    "compare_hand ?bob (dealt (spade ''9'' 9) (spade ''8'' 8))
        (dealt (spade ''K'' 10) (spade ''7'' 7)) (Some 10) = Inr (?bob\<lparr>money := 1000\<rparr>)"
    "compare_hand ?bob (dealt (spade ''9'' 9) (spade ''8'' 8))
        (dealt (spade ''K'' 10) (spade ''9'' 9)) (Some 10) = Inr (?bob\<lparr>money := 990\<rparr>)"
    using settlement_amounts [where p = ?bob and h = "dealt (spade ''9'' 9) (spade ''8'' 8)"
        and d = "dealt (spade ''K'' 10) (spade ''6'' 6)" and w = 10]
      settlement_amounts [where p = ?bob and h = "dealt (spade ''9'' 9) (spade ''8'' 8)"
        and d = "dealt (spade ''K'' 10) (spade ''7'' 7)" and w = 10]
      settlement_amounts [where p = ?bob and h = "dealt (spade ''9'' 9) (spade ''8'' 8)"
        and d = "dealt (spade ''K'' 10) (spade ''9'' 9)" and w = 10]
    by (simp_all add: example_defs)
  from n t r17 r16 c show ?thesis by simp
qed

text \<open>
  C10: a bet of \<open>-5\<close> raises the bankroll from 1000 to 1005; 1001 is refused and 1000
  accepted; a double-down of \<open>-500\<close> raises the bankroll by 500.
\<close>

theorem wager_validation_witness:
  "make_bet (new_player ''Ann'') [typed_number ''-5'' (-5)]
     = Inr ((new_player ''Ann'')\<lparr>wager := -5, money := 1005\<rparr>, [])
   \<and> make_bet (new_player ''Ann'') [typed_number ''1001'' 1001, typed_number ''1000'' 1000]
     = Inr ((new_player ''Ann'')\<lparr>wager := 1000, money := 0\<rparr>, [])
   \<and> double_down (seated ''Bob'' 10 (spade ''9'' 9) (spade ''7'' 7)) (dealt (spade ''9'' 9) (spade ''7'' 7))
        [spade ''2'' 2, spade ''3'' 3] 10 [typed_number ''-500'' (-500)]
     = Inr ((seated ''Bob'' 10 (spade ''9'' 9) (spade ''7'' 7))\<lparr>money := 1490, stand := True\<rparr>,
            add_card (dealt (spade ''9'' 9) (spade ''7'' 7)) (spade ''3'' 3), [spade ''2'' 2], -490, [])"
proof -
  have d: "draw_card (dealt (spade ''9'' 9) (spade ''7'' 7)) [spade ''2'' 2, spade ''3'' 3]
             = Inr (add_card (dealt (spade ''9'' 9) (spade ''7'' 7)) (spade ''3'' 3), [spade ''2'' 2])"
    by (simp add: draw_card_def deal_def reset_ace_value_def example_defs)
  show ?thesis
    using wager_validation [where p = "new_player ''Ann''" and l = "typed_number ''-5'' (-5)"
        and w = "-5" and ins = "[]"]
      wager_validation [where p = "new_player ''Ann''" and l = "typed_number ''1001'' 1001"
        and w = 1001 and ins = "[typed_number ''1000'' 1000]"]
      wager_validation [where p = "new_player ''Ann''" and l = "typed_number ''1000'' 1000"
        and w = 1000 and ins = "[]"]
      wager_validation [where p = "seated ''Bob'' 10 (spade ''9'' 9) (spade ''7'' 7)"
        and l = "typed_number ''-500'' (-500)" and w = "-500" and ins = "[]" and ?w0.0 = 10
        and h = "dealt (spade ''9'' 9) (spade ''7'' 7)" and deck = "[spade ''2'' 2, spade ''3'' 3]"
        and h' = "add_card (dealt (spade ''9'' 9) (spade ''7'' 7)) (spade ''3'' 3)"
        and deck' = "[spade ''2'' 2]"]
      d
    by (simp add: new_player_def typed_number_def seated_def del: make_bet.simps double_down.simps)
qed

text \<open>
  C3 on a pair of aces, the second of which was demoted to 1 when it was dealt: after the
  split the hands are worth 21 and 16, each the sum of its cards. And an ace and a six
  that draw a king are worth 17, the ace demoted.
\<close>

theorem value_is_sum_of_points_witness:
  "hand_consistent (hand (seated ''Ann'' 10 (spade ''A'' 11) (heart ''A'' 11)))
   \<and> hand_value (hand (seated ''Ann'' 10 (spade ''A'' 11) (heart ''A'' 11))) = 12
   \<and> (\<exists>p' deck' h2. split_hand (seated ''Ann'' 10 (spade ''A'' 11) (heart ''A'' 11))
                        [spade ''5'' 5, spade ''K'' 10] = Inr (p', deck')
        \<and> second_hand p' = Some h2 \<and> hand_consistent (hand p') \<and> hand_consistent h2
        \<and> hand_value (hand p') = 21 \<and> hand_value h2 = 16)
   \<and> (\<exists>h' deck'. draw_card (dealt (spade ''A'' 11) (spade ''6'' 6)) [spade ''2'' 2, spade ''K'' 10]
                     = Inr (h', deck')
        \<and> hand_consistent h' \<and> hand_value h' = 17)"
proof -
  let ?p = "seated ''Ann'' 10 (spade ''A'' 11) (heart ''A'' 11)"
  let ?h = "dealt (spade ''A'' 11) (spade ''6'' 6)"
  have c: "hand_consistent (hand ?p)" "hand_value (hand ?p) = 12" "hand_consistent ?h"
    by (simp_all add: hand_consistent_def example_defs)
  obtain p' deck' where s: "split_hand ?p [spade ''5'' 5, spade ''K'' 10] = Inr (p', deck')"
    and v: "hand_value (hand p') = 21" "\<exists>h2. second_hand p' = Some h2 \<and> hand_value h2 = 16"
    by (simp add: split_hand_def deal_def Let_def example_defs)
  obtain h' deck1 where d: "draw_card ?h [spade ''2'' 2, spade ''K'' 10] = Inr (h', deck1)"
    and w: "hand_value h' = 17"
    by (simp add: draw_card_def deal_def reset_ace_value_def Let_def example_defs)
  from value_is_sum_of_points [where p = ?p and ?deck2.0 = "[spade ''5'' 5, spade ''K'' 10]"
      and p' = p' and deck2' = deck' and h = ?h and deck = "[spade ''2'' 2, spade ''K'' 10]"
      and h' = h' and deck' = deck1] c s v d w
  show ?thesis by auto
qed

text \<open>
  C9: an ace and a six stay as they are; with a king added the value is 27, the ace is
  demoted and the value is 17, as in the specification.
\<close>

theorem reset_ace_value_demotes_witness:
  "sound_hand (dealt (spade ''A'' 11) (spade ''6'' 6))
   \<and> reset_ace_value (dealt (spade ''A'' 11) (spade ''6'' 6)) = dealt (spade ''A'' 11) (spade ''6'' 6)
   \<and> sound_hand (add_card (dealt (spade ''A'' 11) (spade ''6'' 6)) (spade ''K'' 10))
   \<and> hand_value (add_card (dealt (spade ''A'' 11) (spade ''6'' 6)) (spade ''K'' 10)) = 27
   \<and> hand_value (reset_ace_value (add_card (dealt (spade ''A'' 11) (spade ''6'' 6)) (spade ''K'' 10))) = 17
   \<and> reevaluateAces (add_card (dealt (spade ''A'' 11) (spade ''6'' 6)) (spade ''K'' 10))
       = reset_ace_value (add_card (dealt (spade ''A'' 11) (spade ''6'' 6)) (spade ''K'' 10))
   \<and> reset_ace_value (dealt (spade ''9'' 9) (spade ''7'' 7)) = dealt (spade ''9'' 9) (spade ''7'' 7)"
proof -
  let ?s = "dealt (spade ''A'' 11) (spade ''6'' 6)"
  let ?h = "add_card ?s (spade ''K'' 10)"
  let ?n = "dealt (spade ''9'' 9) (spade ''7'' 7)"
  have f: "hand_value ?s \<le> LIMIT" "hand_value ?h > LIMIT" "hand_value ?h = 27"
    "filter high_ace (cards ?h) \<noteq> []" "sound_hand ?s" "sound_hand ?h" "1 \<le> points (spade ''K'' 10)"
    "filter high_ace (cards ?n) = []"
    by (simp_all add: sound_hand_def hand_consistent_def high_ace_def example_defs)
  from reset_ace_value_demotes [of ?s "spade ''K'' 10"] f
  have a: "reset_ace_value ?s = ?s" "reset_ace_value ?h = reevaluateAces ?h" by blast+
  from reset_ace_value_demotes [of ?h] f
  have b: "hand_value (reset_ace_value ?h) = hand_value ?h - 10" by blast
  from reset_ace_value_demotes [of ?n] f(8)
  have c: "reset_ace_value ?n = ?n" by blast
  from a b c f show ?thesis by simp
qed

text \<open>
  C8: the dealer stands on an ace and a six, and draws on 16, in the loop and in the
  dealer's turn.
\<close>

theorem dealer_draws_to_17_witness:
  "dealer_draws (dealt (spade ''A'' 11) (spade ''6'' 6)) [spade ''K'' 10]
     = Inr (dealt (spade ''A'' 11) (spade ''6'' 6), [spade ''K'' 10])
   \<and> hand_value (dealt (spade ''A'' 11) (spade ''6'' 6)) = 17
   \<and> (\<exists>h' deck'. dealer_draws (dealt (spade ''9'' 9) (spade ''7'' 7)) [spade ''2'' 2, spade ''5'' 5]
                     = Inr (h', deck') \<and> 17 \<le> hand_value h')
   \<and> (\<exists>ps'. resolve_dealer_hand [spade ''K'' 10] \<lparr>dealer_hand = dealt (spade ''A'' 11) (spade ''6'' 6)\<rparr>
                [(seated ''Bob'' 10 (spade ''9'' 9) (spade ''8'' 8))\<lparr>stand := True\<rparr>]
              = Inr ([spade ''K'' 10], \<lparr>dealer_hand = dealt (spade ''A'' 11) (spade ''6'' 6)\<rparr>, ps'))
   \<and> (\<exists>d' ps'. dealer_turn [spade ''2'' 2, spade ''5'' 5] \<lparr>dealer_hand = dealt (spade ''9'' 9) (spade ''7'' 7)\<rparr>
                   [(seated ''Bob'' 10 (spade ''9'' 9) (spade ''8'' 8))\<lparr>stand := True\<rparr>]
                 = Inr ([spade ''2'' 2], d', ps')
        \<and> hand_value (dealer_hand d') = 21)
   \<and> resolve_dealer_hand [] \<lparr>dealer_hand = dealt (spade ''9'' 9) (spade ''7'' 7)\<rparr> [] = Inl IndexError"
proof -
  let ?soft = "dealt (spade ''A'' 11) (spade ''6'' 6)"
  let ?h = "dealt (spade ''9'' 9) (spade ''7'' 7)"
  let ?h1 = "add_card ?h (spade ''5'' 5)"
  let ?ps = "[(seated ''Bob'' 10 (spade ''9'' 9) (spade ''8'' 8))\<lparr>stand := True\<rparr>]"
  have v: "hand_value ?soft = 17" "hand_value ?h < 17" "17 \<le> hand_value ?h1"
    "hand_value ?h1 = 21"
    by (simp_all add: example_defs)
  have d: "draw_card ?h [spade ''2'' 2, spade ''5'' 5] = Inr (?h1, [spade ''2'' 2])"
    by (simp add: draw_card_def deal_def reset_ace_value_def example_defs)
  from dealer_draws_to_17 [of ?soft "[spade ''K'' 10]"] v
  have a: "dealer_draws ?soft [spade ''K'' 10] = Inr (?soft, [spade ''K'' 10])" by simp
  from dealer_draws_to_17 [of ?h "[spade ''2'' 2, spade ''5'' 5]" ?h1 "[spade ''2'' 2]"] v d
  have b: "dealer_draws ?h [spade ''2'' 2, spade ''5'' 5] = dealer_draws ?h1 [spade ''2'' 2]"
    by simp
  from dealer_draws_to_17 [of ?h1 "[spade ''2'' 2]"] v
  have c: "dealer_draws ?h1 [spade ''2'' 2] = Inr (?h1, [spade ''2'' 2])" by simp
  have o: "\<forall>p\<in>set ?ps. second_hand_in_order p" "\<forall>c\<in>set [spade ''K'' 10]. 1 \<le> points c"
    "\<forall>c\<in>set [spade ''2'' 2, spade ''5'' 5]. 1 \<le> points c"
    "17 \<le> low_value ?h + int (length [spade ''2'' 2, spade ''5'' 5])"
    "list_ex stand ?ps" "\<not> blackjack ?h"
    by (simp_all add: second_hand_in_order_def low_value_def high_ace_def example_defs)
  have "resolve_dealer_hand [spade ''K'' 10] \<lparr>dealer_hand = ?soft\<rparr> ?ps
          = Inr ([spade ''K'' 10], \<lparr>dealer_hand = ?soft\<rparr>,
                 [(seated ''Bob'' 10 (spade ''9'' 9) (spade ''8'' 8))\<lparr>stand := True, money := 1000\<rparr>])"
    by code_simp
  then obtain deck3 d3 ps3 where
    r: "resolve_dealer_hand [spade ''K'' 10] \<lparr>dealer_hand = ?soft\<rparr> ?ps = Inr (deck3, d3, ps3)"
    by blast
  from dealer_draws_to_17 [where d = "\<lparr>dealer_hand = ?soft\<rparr>" and deck = "[spade ''K'' 10]"
        and ps = ?ps and ?deck2.0 = deck3 and ?d2.0 = d3 and ?ps2.0 = ps3] r v(1)
  have e: "resolve_dealer_hand [spade ''K'' 10] \<lparr>dealer_hand = ?soft\<rparr> ?ps
             = Inr ([spade ''K'' 10], \<lparr>dealer_hand = ?soft\<rparr>, ps3)"
    by simp
  have "\<exists>deck4 d4 ps4. resolve_dealer_hand [spade ''2'' 2, spade ''5'' 5] \<lparr>dealer_hand = ?h\<rparr> ?ps
           = Inr (deck4, d4, ps4) \<and> 17 \<le> hand_value (dealer_hand d4)"
    using dealer_draws_to_17 [where d = "\<lparr>dealer_hand = ?h\<rparr>"
        and deck = "[spade ''2'' 2, spade ''5'' 5]" and ps = ?ps and h = ?h and ?h1.0 = ?h1
        and ?deck1.0 = "[spade ''2'' 2]" and h' = ?h1 and deck' = "[spade ''2'' 2]"
        and ?deck2.0 = "[]" and ?d2.0 = "\<lparr>dealer_hand = ?h\<rparr>" and ?ps2.0 = "[]"] o(1,3,4)
    by simp
  then obtain deck4 d4 ps4 where
    r4: "resolve_dealer_hand [spade ''2'' 2, spade ''5'' 5] \<lparr>dealer_hand = ?h\<rparr> ?ps
           = Inr (deck4, d4, ps4)"
    by blast
  from dealer_draws_to_17 [where d = "\<lparr>dealer_hand = ?h\<rparr>"
        and deck = "[spade ''2'' 2, spade ''5'' 5]" and ps = ?ps
        and ?deck2.0 = deck4 and ?d2.0 = d4 and ?ps2.0 = ps4] r4 b c o(5,6)
  have f: "dealer_turn [spade ''2'' 2, spade ''5'' 5] \<lparr>dealer_hand = ?h\<rparr> ?ps = Inr (deck4, d4, ps4)"
    "dealer_hand d4 = ?h1" "deck4 = [spade ''2'' 2]"
    by simp_all
  from dealer_draws_to_17 [where d = "\<lparr>dealer_hand = ?h\<rparr>" and ps = "[]"] v(2)
  have g: "resolve_dealer_hand [] \<lparr>dealer_hand = ?h\<rparr> [] = Inl IndexError" by simp
  from a b c v e f g show ?thesis by auto
qed

text \<open>
  C6: with two aces the face-up ace counts 1 and is checked all the same; with an ace
  and a nine face up there is no check, and the hand is worth 20.
\<close>

theorem dealer_peek_witness:
  "reveal_faceup \<lparr>dealer_hand = add_card (add_card new_hand (spade ''A'' 11)) (heart ''A'' 11)\<rparr>
     = Inr ((heart ''A'' 11)\<lparr>points := 1\<rparr>)
   \<and> must_check ((heart ''A'' 11)\<lparr>points := 1\<rparr>)
   \<and> dealer_check \<lparr>dealer_hand = add_card (add_card new_hand (spade ''A'' 11)) (heart ''A'' 11)\<rparr> []
       = Inr (\<lparr>dealer_hand = dealt (spade ''A'' 11) (heart ''A'' 11)\<rparr>, [])
   \<and> blackjack (dealt (spade ''A'' 11) (heart ''A'' 11)) = False
   \<and> reveal_faceup \<lparr>dealer_hand = add_card (add_card new_hand (spade ''A'' 11)) (spade ''9'' 9)\<rparr>
       = Inr (spade ''9'' 9)
   \<and> \<not> must_check (spade ''9'' 9)
   \<and> dealer_check \<lparr>dealer_hand = add_card (add_card new_hand (spade ''A'' 11)) (spade ''9'' 9)\<rparr> []
       = Inr (\<lparr>dealer_hand = add_card (add_card new_hand (spade ''A'' 11)) (spade ''9'' 9)\<rparr>, [])
   \<and> hand_value (add_card (add_card new_hand (spade ''A'' 11)) (spade ''9'' 9)) = 20"
proof -
  let ?aa = "\<lparr>dealer_hand = add_card (add_card new_hand (spade ''A'' 11)) (heart ''A'' 11)\<rparr>"
  let ?a9 = "\<lparr>dealer_hand = add_card (add_card new_hand (spade ''A'' 11)) (spade ''9'' 9)\<rparr>"
  have dc: "deck_card (spade ''A'' 11)" "deck_card (heart ''A'' 11)" "deck_card (spade ''9'' 9)"
    by (simp_all add: deck_defs spade_def heart_def)
  have c1: "dealer_check ?aa [] = Inr (\<lparr>dealer_hand = dealt (spade ''A'' 11) (heart ''A'' 11)\<rparr>, [])"
    by code_simp
  have c2: "dealer_check ?a9 [] = Inr (?a9, [])"
    by code_simp
  from dealer_peek [OF dc(1) dc(2), of ?aa] dealer_peek [OF dc(1) dc(3), of ?a9] c1 c2
  show ?thesis
    by (simp add: reveal_faceup_def must_check_def example_defs)
qed

text \<open>
  C2: the dealer holds an ace and, face up, a king; Ann holds a natural blackjack and
  gets her 10 back, Bob holds 17 and loses his 20; deck and input are untouched.
\<close>

theorem dealer_natural_ends_round_witness:
  "play_dealt_round
     [seated ''Ann'' 10 (spade ''A'' 11) (spade ''K'' 10), seated ''Bob'' 20 (spade ''9'' 9) (spade ''8'' 8)]
     \<lparr>dealer_hand = add_card (add_card new_hand (heart ''A'' 11)) (heart ''K'' 10)\<rparr>
     [spade ''2'' 2, spade ''3'' 3] [typed ''H'']
   = Inr ([(seated ''Ann'' 10 (spade ''A'' 11) (spade ''K'' 10))\<lparr>money := 1000\<rparr>,
           (seated ''Bob'' 20 (spade ''9'' 9) (spade ''8'' 8))\<lparr>stand := True\<rparr>],
          \<lparr>dealer_hand = dealt (heart ''A'' 11) (heart ''K'' 10)\<rparr>,
          [spade ''2'' 2, spade ''3'' 3], [typed ''H''])"
proof -
  let ?d = "\<lparr>dealer_hand = add_card (add_card new_hand (heart ''A'' 11)) (heart ''K'' 10)\<rparr>"
  have a: "reveal_faceup ?d = Inr (heart ''K'' 10)" "must_check (heart ''K'' 10)"
    "length (cards (dealer_hand ?d)) = 2" "hand_value (dealer_hand ?d) = LIMIT"
    by (simp_all add: reveal_faceup_def must_check_def example_defs)
  show ?thesis
    by (simp add: dealer_natural_ends_round [OF a]) (simp add: example_defs)
qed

text \<open>
  C5: with 1000, a bet of 20 and a hit to 24: the bankroll stays at 980, the player does
  not stand, and neither a bust of the dealer nor the dealer's turn behind a standing
  player pays anything.
\<close>

theorem bust_forfeits_witness:
  "\<exists>p' deck' ins'.
     player_turn (seated ''Ann'' 20 (spade ''K'' 10) (spade ''6'' 6)) [spade ''2'' 2, spade ''8'' 8]
       [typed ''h'', typed ''S''] = Inr (p', deck', ins')
     \<and> hand_value (hand p') = 24 \<and> stand p' = False \<and> money p' = 980
     \<and> payout_after_dealer_bust [p'] = Inr [p']
     \<and> (\<exists>deck1 dealer1 q.
           dealer_turn [spade ''K'' 10] \<lparr>dealer_hand = dealt (spade ''9'' 9) (spade ''7'' 7)\<rparr>
             [(seated ''Bob'' 10 (spade ''9'' 9) (spade ''8'' 8))\<lparr>stand := True\<rparr>, p']
           = Inr (deck1, dealer1, [q, p']))"
proof -
  let ?p = "seated ''Ann'' 20 (spade ''K'' 10) (spade ''6'' 6)"
  let ?h = "add_card (dealt (spade ''K'' 10) (spade ''6'' 6)) (spade ''8'' 8)"
  let ?bob = "(seated ''Bob'' 10 (spade ''9'' 9) (spade ''8'' 8))\<lparr>stand := True\<rparr>"
  let ?d = "\<lparr>dealer_hand = dealt (spade ''9'' 9) (spade ''7'' 7)\<rparr>"
  have t: "player_turn ?p [spade ''2'' 2, spade ''8'' 8] [typed ''h'', typed ''S'']
              = Inr (?p\<lparr>hand := ?h\<rparr>, [spade ''2'' 2], [typed ''S''])"
    by code_simp
  have f: "blackjack (hand ?p) = False" "stand ?p = False" "second_hand (?p\<lparr>hand := ?h\<rparr>) = None"
    "hand_value (hand (?p\<lparr>hand := ?h\<rparr>)) > LIMIT" "hand_value (hand (?p\<lparr>hand := ?h\<rparr>)) = 24"
    "money ?p = 980" "wager ?p = 20" "wager (?p\<lparr>hand := ?h\<rparr>) = 20"
    by (simp_all add: example_defs)
  have u: "dealer_turn [spade ''K'' 10] ?d [?bob, ?p\<lparr>hand := ?h\<rparr>]
             = Inr ([], \<lparr>dealer_hand = add_card (dealt (spade ''9'' 9) (spade ''7'' 7)) (spade ''K'' 10)\<rparr>,
                    [?bob\<lparr>money := 1010\<rparr>, ?p\<lparr>hand := ?h\<rparr>])"
    by code_simp
  from bust_forfeits [OF f(1) f(2) t f(3) f(4), of ?d] f t u show ?thesis by simp
qed

text \<open>
  C4: a pair of eights can be split, a king and a queen can not; after the split the
  hands have two cards each, the wagers are 10 and 10 and the bankroll is 980.
\<close>

theorem split_condition_witness:
  "split_offered (seated ''Ann'' 10 (spade ''8'' 8) (heart ''8'' 8)) = Inr True
   \<and> split_offered (seated ''Bob'' 10 (spade ''K'' 10) (heart ''Q'' 10)) = Inr False
   \<and> (\<exists>p1 h2. split_hand (seated ''Ann'' 10 (spade ''8'' 8) (heart ''8'' 8)) [spade ''2'' 2, spade ''3'' 3]
                  = Inr (p1, [])
        \<and> second_hand p1 = Some h2 \<and> length (cards (hand p1)) = 2 \<and> length (cards h2) = 2
        \<and> wager p1 = 10 \<and> second_wager p1 = Some 10 \<and> money p1 = 980
        \<and> first_hand_loop (seated ''Ann'' 10 (spade ''8'' 8) (heart ''8'' 8)) [spade ''2'' 2, spade ''3'' 3]
             [typed ''p'', typed ''s''] = Inr (p1\<lparr>stand := True\<rparr>, [], []))
   \<and> first_hand_loop (seated ''Bob'' 10 (spade ''K'' 10) (heart ''Q'' 10)) [spade ''2'' 2, spade ''3'' 3]
        [typed ''p'', typed ''s'']
      = first_hand_loop (seated ''Bob'' 10 (spade ''K'' 10) (heart ''Q'' 10)) [spade ''2'' 2, spade ''3'' 3]
        [typed ''s'']"
proof -
  let ?a = "seated ''Ann'' 10 (spade ''8'' 8) (heart ''8'' 8)"
  let ?b = "seated ''Bob'' 10 (spade ''K'' 10) (heart ''Q'' 10)"
  let ?deck = "[spade ''2'' 2, spade ''3'' 3]"
  let ?p1 = "?a\<lparr>hand := add_card \<lparr>cards = [spade ''8'' 8], hand_value = 8, blackjack = False\<rparr> (spade ''3'' 3),
                 second_hand := Some (add_card (add_card new_hand (heart ''8'' 8)) (spade ''2'' 2)),
                 second_wager := Some 10, money := 980\<rparr>"
  have na: "\<forall>c\<in>set (cards (hand ?a)). named_card c" and nb: "\<forall>c\<in>set (cards (hand ?b)). named_card c"
    by (simp_all add: deck_defs example_defs)
  have m: "may_split ?a" "\<not> may_split ?b"
    by (simp_all add: may_split_def rank_of_def example_defs)
  have v: "hand_value (hand ?a) < LIMIT" "hand_value (hand ?b) < LIMIT"
    "upper (raw (typed ''p'')) = ''P''"
    by (simp_all add: example_defs upper_char_def)
  have s: "split_hand ?a ?deck = Inr (?p1, [])" by code_simp
  have sa: "split_of_aces ?p1 = Inr False" by code_simp
  have l2: "first_hand_loop ?p1 [] [typed ''s''] = Inr (?p1\<lparr>stand := True\<rparr>, [], [])" by code_simp
  have f: "second_hand ?p1 = Some (add_card (add_card new_hand (heart ''8'' 8)) (spade ''2'' 2))"
    "length (cards (hand ?p1)) = 2"
    "length (cards (add_card (add_card new_hand (heart ''8'' 8)) (spade ''2'' 2))) = 2"
    "wager ?p1 = 10" "second_wager ?p1 = Some 10" "money ?p1 = 980"
    by (simp_all add: example_defs)
  from split_condition [OF na, of "typed ''p''" ?deck "[typed ''s'']"] m(1) v(1,3) s sa l2
  have a: "split_offered ?a = Inr True"
    "first_hand_loop ?a ?deck [typed ''p'', typed ''s''] = Inr (?p1\<lparr>stand := True\<rparr>, [], [])"
    by simp_all
  from split_condition [OF nb, of "typed ''p''" ?deck "[typed ''s'']"] m(2) v(2,3)
  have b: "split_offered ?b = Inr False"
    "first_hand_loop ?b ?deck [typed ''p'', typed ''s''] = first_hand_loop ?b ?deck [typed ''s'']"
    by simp_all
  from a b s f show ?thesis by blast
qed

text \<open>
  C7: a pair of aces is split, the player stands, and the line after the choice is left
  unread.
\<close>

theorem split_aces_stand_witness:
  "\<exists>p1 h2. player_turn (seated ''Ann'' 10 (spade ''A'' 11) (heart ''A'' 11))
              [spade ''5'' 5, spade ''K'' 10] [typed ''P'', typed ''H'']
            = Inr (p1, [], [typed ''H''])
     \<and> stand p1 \<and> second_hand p1 = Some h2
     \<and> length (cards (hand p1)) = 2 \<and> length (cards h2) = 2"
proof -
  let ?p = "seated ''Ann'' 10 (spade ''A'' 11) (heart ''A'' 11)"
  have a: "deck_card (spade ''A'' 11)" "deck_card (heart ''A'' 11)"
    "startswith (name (spade ''A'' 11)) ''A''" "startswith (name (heart ''A'' 11)) ''A''"
    "hand ?p = dealt (spade ''A'' 11) (heart ''A'' 11)" "stand ?p = False"
    "second_hand ?p = None" "wager ?p \<le> money ?p" "upper (raw (typed ''P'')) = ''P''"
    "\<forall>c\<in>set [spade ''5'' 5, spade ''K'' 10]. deck_card c"
    "2 \<le> length [spade ''5'' 5, spade ''K'' 10]"
    by (simp_all add: deck_defs spade_def heart_def startswith_def seated_def new_player_def
          typed_def upper_char_def)
  from split_aces_stand [OF a, of "[typed ''H'']"] show ?thesis by auto
qed

end
